theory Spec2Isabelle
  imports Complex_Main "HOL-Library.Multiset"
begin

section \<open>Particles (quad\_tree.py, class Particle)\<close>

text \<open>
  Python floats are idealised as real numbers: every arithmetic operation of the source is
  read without rounding. Particles are objects that the solver's list and the tree's nodes
  both refer to, so a particle is named by a reference and its fields live in a heap.
\<close>

type_synonym ref = nat

record Particle =
  x :: real
  y :: real
  radius :: real
  color :: "int \<times> int \<times> int"
  last_pos :: "real \<times> real"
  accel :: "real \<times> real"
  mass :: real

type_synonym heap = "ref \<Rightarrow> Particle"

definition Particle_init :: "real \<Rightarrow> real \<Rightarrow> int \<times> int \<times> int \<Rightarrow> Particle" where
  "Particle_init x0 y0 c =
     \<lparr>x = x0, y = y0, radius = 3, color = c, last_pos = (x0, y0), accel = (0, 0), mass = 1\<rparr>"

definition setVelocity :: "Particle \<Rightarrow> real \<Rightarrow> real \<Rightarrow> real \<Rightarrow> Particle" where
  "setVelocity p vx vy dt = p\<lparr>last_pos := (x p - vx * dt, y p - vy * dt)\<rparr>"

definition addVelocity :: "Particle \<Rightarrow> real \<Rightarrow> real \<Rightarrow> real \<Rightarrow> Particle" where
  "addVelocity p vx vy dt =
     p\<lparr>last_pos := (fst (last_pos p) - vx * dt, snd (last_pos p) - vy * dt)\<rparr>"

definition getVelocity :: "Particle \<Rightarrow> real \<times> real" where
  "getVelocity p = (x p - fst (last_pos p), y p - snd (last_pos p))"

definition accelerate :: "Particle \<Rightarrow> real \<Rightarrow> real \<Rightarrow> Particle" where
  "accelerate p ax ay = p\<lparr>accel := (fst (accel p) + ax, snd (accel p) + ay)\<rparr>"

definition VELOCITY_DAMPENING :: real where
  "VELOCITY_DAMPENING = 0.5"

definition Particle_update :: "Particle \<Rightarrow> real \<Rightarrow> Particle" where
  "Particle_update p dt =
     (let last_up_move = (x p - fst (last_pos p), y p - snd (last_pos p));
          new_pos =
            (x p + fst last_up_move
               + (fst (accel p) - fst last_up_move * VELOCITY_DAMPENING) * (dt * dt),
             y p + snd last_up_move
               + (snd (accel p) - snd last_up_move * VELOCITY_DAMPENING) * (dt * dt))
      in p\<lparr>last_pos := (x p, y p), x := fst new_pos, y := snd new_pos, accel := (0, 0)\<rparr>)"

definition stop :: "Particle \<Rightarrow> Particle" where
  "stop p = p\<lparr>last_pos := (x p, y p)\<rparr>"

definition set_position :: "Particle \<Rightarrow> real \<Rightarrow> real \<Rightarrow> Particle" where
  "set_position p x0 y0 = p\<lparr>x := x0, y := y0, last_pos := (x0, y0)\<rparr>"


section \<open>Rectangles (pygame.Rect, as quad\_tree.py uses it)\<close>

text \<open>
  \<open>pygame.Rect(x, y, w, h)\<close> holds four integers. \<open>collidepoint\<close> converts its two
  arguments to C integers, which truncates a float toward zero as \<open>int()\<close> does, and tests
  them against the rectangle with the left and top edges included and the right and bottom
  edges excluded. \<open>colliderect\<close> is the overlap test of pygame 2: a rectangle of zero width
  or height collides with nothing.
\<close>

datatype Rect = Rect (rect_x: int) (rect_y: int) (rect_w: int) (rect_h: int)

definition trunc :: "real \<Rightarrow> int" where
  "trunc v = (if 0 \<le> v then \<lfloor>v\<rfloor> else \<lceil>v\<rceil>)"

definition collidepoint :: "Rect \<Rightarrow> real \<Rightarrow> real \<Rightarrow> bool" where
  "collidepoint b px py =
     (let ix = trunc px; iy = trunc py
      in ix \<ge> rect_x b \<and> ix < rect_x b + rect_w b \<and> iy \<ge> rect_y b \<and> iy < rect_y b + rect_h b)"

definition colliderect :: "Rect \<Rightarrow> Rect \<Rightarrow> bool" where
  "colliderect a b =
     (if rect_w a = 0 \<or> rect_h a = 0 \<or> rect_w b = 0 \<or> rect_h b = 0 then False
      else min (rect_x a) (rect_x a + rect_w a) < max (rect_x b) (rect_x b + rect_w b)
         \<and> min (rect_y a) (rect_y a + rect_h a) < max (rect_y b) (rect_y b + rect_h b)
         \<and> max (rect_x a) (rect_x a + rect_w a) > min (rect_x b) (rect_x b + rect_w b)
         \<and> max (rect_y a) (rect_y a + rect_h a) > min (rect_y b) (rect_y b + rect_h b))"


section \<open>The spatial index (quad\_tree.py, class QuadTree)\<close>

text \<open>
  A node has a boundary, the list of the particles it holds itself, and a capacity. A node
  with \<open>divided = False\<close> has no children (\<open>Leaf\<close>); \<open>subdivide\<close> gives it the attributes
  \<open>northeast\<close>, \<open>northwest\<close>, \<open>southeast\<close>, \<open>southwest\<close> and sets \<open>divided\<close> (\<open>Divided\<close>,
  with the children in that order).
\<close>

datatype QuadTree =
    Leaf Rect "ref list" int
  | Divided Rect "ref list" int QuadTree QuadTree QuadTree QuadTree

type_synonym children = "QuadTree \<times> QuadTree \<times> QuadTree \<times> QuadTree"

definition QuadTree_init :: "Rect \<Rightarrow> int \<Rightarrow> QuadTree" where
  "QuadTree_init b cap = Leaf b [] cap"

fun boundary :: "QuadTree \<Rightarrow> Rect" where
  "boundary (Leaf b ps cap) = b"
| "boundary (Divided b ps cap ne nw se sw) = b"

fun held :: "QuadTree \<Rightarrow> ref list" where
  "held (Leaf b ps cap) = ps"
| "held (Divided b ps cap ne nw se sw) = ps"

fun capacity :: "QuadTree \<Rightarrow> int" where
  "capacity (Leaf b ps cap) = cap"
| "capacity (Divided b ps cap ne nw se sw) = cap"

fun divided :: "QuadTree \<Rightarrow> bool" where
  "divided (Leaf b ps cap) = False"
| "divided (Divided b ps cap ne nw se sw) = True"

text \<open>
  \<open>subdivide\<close>: the four children the method creates, in the order northeast, northwest,
  southeast, southwest. \<open>//\<close> is floor division.
\<close>

definition subdivide :: "Rect \<Rightarrow> int \<Rightarrow> children" where
  "subdivide b cap =
     (let x0 = rect_x b; y0 = rect_y b; w = rect_w b; h = rect_h b;
          hw = w div 2; hh = h div 2
      in (QuadTree_init (Rect (x0 + hw) y0 hw hh) cap,
          QuadTree_init (Rect x0 y0 hw hh) cap,
          QuadTree_init (Rect (x0 + hw) (y0 + hh) hw hh) cap,
          QuadTree_init (Rect x0 (y0 + hh) hw hh) cap))"

text \<open>
  \<open>a.insert(p) or b.insert(p) or c.insert(p) or d.insert(p)\<close> on the four children: the
  calls are made in order and stop at the first that returns \<open>True\<close>; each call that was
  made may have changed its child. \<open>ins\<close> is the recursive call; it returns \<open>None\<close> when
  the recursion has not returned.
\<close>

definition insert_children ::
    "(QuadTree \<Rightarrow> (bool \<times> QuadTree) option) \<Rightarrow> children \<Rightarrow> (bool \<times> children) option" where
  "insert_children ins kids =
     (case kids of (ne, nw, se, sw) \<Rightarrow>
        (case ins ne of None \<Rightarrow> None
         | Some (ok1, ne') \<Rightarrow>
             if ok1 then Some (True, (ne', nw, se, sw)) else
        (case ins nw of None \<Rightarrow> None
         | Some (ok2, nw') \<Rightarrow>
             if ok2 then Some (True, (ne', nw', se, sw)) else
        (case ins se of None \<Rightarrow> None
         | Some (ok3, se') \<Rightarrow>
             if ok3 then Some (True, (ne', nw', se', sw)) else
        (case ins sw of None \<Rightarrow> None
         | Some (ok4, sw') \<Rightarrow> Some (ok4, (ne', nw', se', sw')))))))"

text \<open>
  The loop \<open>for p in existing\<close> after a subdivision: each particle the node held is offered
  to the children; one that no child takes is appended to the node's own list again.
\<close>

fun move_existing ::
    "(QuadTree \<Rightarrow> ref \<Rightarrow> (bool \<times> QuadTree) option) \<Rightarrow> ref list \<Rightarrow> children \<Rightarrow> ref list
      \<Rightarrow> (children \<times> ref list) option" where
  "move_existing ins [] kids kept = Some (kids, kept)"
| "move_existing ins (p # existing) kids kept =
     (case insert_children (\<lambda>t. ins t p) kids of None \<Rightarrow> None
      | Some (inserted, kids') \<Rightarrow>
          move_existing ins existing kids' (if inserted then kept else kept @ [p]))"

text \<open>
  The body of \<open>insert\<close>, with \<open>ins\<close> for the method's calls of itself on children. The
  result is the returned flag and the node as the call leaves it.
\<close>

fun insert_body ::
    "(QuadTree \<Rightarrow> ref \<Rightarrow> (bool \<times> QuadTree) option) \<Rightarrow> heap \<Rightarrow> QuadTree \<Rightarrow> ref
      \<Rightarrow> (bool \<times> QuadTree) option" where
  "insert_body ins hp (Leaf b ps cap) r =
     (if \<not> collidepoint b (x (hp r)) (y (hp r)) then Some (False, Leaf b ps cap)
      else if int (length ps) < cap then Some (True, Leaf b (ps @ [r]) cap)
      else
        (case move_existing ins ps (subdivide b cap) [] of None \<Rightarrow> None
         | Some (kids, kept) \<Rightarrow>
             (case insert_children (\<lambda>t. ins t r) kids of None \<Rightarrow> None
              | Some (ok, (ne, nw, se, sw)) \<Rightarrow> Some (ok, Divided b kept cap ne nw se sw))))"
| "insert_body ins hp (Divided b ps cap ne nw se sw) r =
     (if \<not> collidepoint b (x (hp r)) (y (hp r)) then Some (False, Divided b ps cap ne nw se sw)
      else
        (case insert_children (\<lambda>t. ins t r) (ne, nw, se, sw) of None \<Rightarrow> None
         | Some (ok, (ne', nw', se', sw')) \<Rightarrow> Some (ok, Divided b ps cap ne' nw' se' sw')))"

text \<open>
  \<open>insert\<close> calls itself on children it has just created, so the recursion is not on the
  structure of the tree. The fuel bounds the depth of the recursion; \<open>None\<close> says the fuel
  ran out. \<open>insert_fuel_returns\<close> below shows that \<open>depth_bound t\<close> is always enough, and
  \<open>QuadTree_insert\<close> runs with that much.
\<close>

fun insert_fuel :: "nat \<Rightarrow> heap \<Rightarrow> QuadTree \<Rightarrow> ref \<Rightarrow> (bool \<times> QuadTree) option" where
  "insert_fuel 0 hp t r = None"
| "insert_fuel (Suc n) hp t r = insert_body (insert_fuel n hp) hp t r"

fun depth_bound :: "QuadTree \<Rightarrow> nat" where
  "depth_bound (Leaf b ps cap) = Suc (nat (rect_w b))"
| "depth_bound (Divided b ps cap ne nw se sw) =
     Suc (max (max (depth_bound ne) (depth_bound nw)) (max (depth_bound se) (depth_bound sw)))"

definition QuadTree_insert :: "heap \<Rightarrow> QuadTree \<Rightarrow> ref \<Rightarrow> (bool \<times> QuadTree) option" where
  "QuadTree_insert hp t r = insert_fuel (depth_bound t) hp t r"

text \<open>
  \<open>query\<close> appends to the list it is given; the model returns that list as the call leaves
  it. The loop over the node's own particles comes first, then the four children in order.
\<close>

fun scan :: "heap \<Rightarrow> Rect \<Rightarrow> ref list \<Rightarrow> ref list \<Rightarrow> ref list" where
  "scan hp rg [] found = found"
| "scan hp rg (p # ps) found =
     scan hp rg ps (if collidepoint rg (x (hp p)) (y (hp p)) then found @ [p] else found)"

fun query :: "heap \<Rightarrow> QuadTree \<Rightarrow> Rect \<Rightarrow> ref list \<Rightarrow> ref list" where
  "query hp (Leaf b ps cap) rg found =
     (if \<not> colliderect b rg then found else scan hp rg ps found)"
| "query hp (Divided b ps cap ne nw se sw) rg found =
     (if \<not> colliderect b rg then found
      else
        (let found1 = scan hp rg ps found;
             found2 = query hp ne rg found1;
             found3 = query hp nw rg found2;
             found4 = query hp se rg found3
         in query hp sw rg found4))"


section \<open>The solver (collision\_sys.py, class CollisionSystem)\<close>

text \<open>
  The solver's fields. \<open>quad_tree\<close> is \<open>None\<close> until \<open>set_up_quad_tree\<close> has run.
  \<open>particles\<close> is the list of references in insertion order; the methods below loop over
  it and mutate the referenced particles in the heap, one after the other.
\<close>

record CollisionSystem =
  quad_tree :: "QuadTree option"
  particles :: "ref list"
  gravity :: real
  iterations :: nat
  width :: int
  height :: int

definition CollisionSystem_init :: "int \<Rightarrow> int \<Rightarrow> CollisionSystem" where
  "CollisionSystem_init w h =
     \<lparr>quad_tree = None, particles = [], gravity = 200.0 * 10, iterations = 5,
      width = w, height = h\<rparr>"

text \<open>
  \<open>set_up_quad_tree\<close> builds a new tree over the arena, with capacity 5, and inserts every
  particle of the list in order; the flag each \<open>insert\<close> returns is not looked at.
\<close>

fun insert_each :: "heap \<Rightarrow> QuadTree \<Rightarrow> ref list \<Rightarrow> QuadTree option" where
  "insert_each hp t [] = Some t"
| "insert_each hp t (r # rs) =
     (case QuadTree_insert hp t r of None \<Rightarrow> None
      | Some (ok, t') \<Rightarrow> insert_each hp t' rs)"

definition set_up_quad_tree :: "CollisionSystem \<Rightarrow> heap \<Rightarrow> CollisionSystem option" where
  "set_up_quad_tree cs hp =
     (case insert_each hp (QuadTree_init (Rect 0 0 (width cs) (height cs)) 5) (particles cs) of
        None \<Rightarrow> None
      | Some t \<Rightarrow> Some (cs\<lparr>quad_tree := Some t\<rparr>))"

text \<open>
  \<open>for particle in self.particles: body(particle)\<close>, where the body mutates the particle
  it is given: the heap is updated at each listed reference in turn.
\<close>

fun for_each :: "(Particle \<Rightarrow> Particle) \<Rightarrow> ref list \<Rightarrow> heap \<Rightarrow> heap" where
  "for_each body [] hp = hp"
| "for_each body (r # rs) hp = for_each body rs (hp(r := body (hp r)))"

definition restitution :: real where
  "restitution = 0.8"

text \<open>
  The body of the loop of \<open>wall_collisions\<close>, for one particle: first the left/right walls
  (\<open>if\<close>/\<open>elif\<close>), then the bottom/top walls. Each branch first overwrites the coordinate,
  then reads the velocity of the particle as it is now, then calls \<open>setVelocity\<close>.
\<close>

definition wall_lr :: "real \<Rightarrow> Particle \<Rightarrow> Particle" where
  "wall_lr w p =
     (if x p - radius p < 0 then
        (let p1 = p\<lparr>x := radius p\<rparr>;
             (vx, vy) = getVelocity p1
         in setVelocity p1 (- vx * restitution) vy 1.0)
      else if x p + radius p > w then
        (let p1 = p\<lparr>x := w - radius p\<rparr>;
             (vx, vy) = getVelocity p1
         in setVelocity p1 (- vx * restitution) vy 1.0)
      else p)"

definition wall_bt :: "real \<Rightarrow> Particle \<Rightarrow> Particle" where
  "wall_bt h p =
     (if y p - radius p < 0 then
        (let p1 = p\<lparr>y := radius p\<rparr>;
             (vx, vy) = getVelocity p1
         in setVelocity p1 vx (- vy * restitution) 1.0)
      else if y p + radius p > h then
        (let p1 = p\<lparr>y := h - radius p\<rparr>;
             (vx, vy) = getVelocity p1
         in setVelocity p1 vx (- vy * restitution) 1.0)
      else p)"

definition wall_collisions_body :: "CollisionSystem \<Rightarrow> Particle \<Rightarrow> Particle" where
  "wall_collisions_body cs p = wall_bt (real_of_int (height cs)) (wall_lr (real_of_int (width cs)) p)"

definition wall_collisions :: "CollisionSystem \<Rightarrow> heap \<Rightarrow> heap" where
  "wall_collisions cs hp =
     for_each (wall_collisions_body cs) (particles cs) hp"

definition eps :: real where
  "eps = 1 / 1000000"

definition resp_coefficient :: real where
  "resp_coefficient = 1.0"

text \<open>
  \<open>resolveCollision\<close> reads both particles, and where the guard holds writes the four
  coordinates one after the other, \<open>p1.x\<close>, \<open>p1.y\<close>, \<open>p2.x\<close>, \<open>p2.y\<close>, each as an update of
  the heap at the particle's reference (so the model also says what happens when both
  references name one particle).
\<close>

definition resolveCollision :: "heap \<Rightarrow> ref \<Rightarrow> ref \<Rightarrow> heap" where
  "resolveCollision hp r1 r2 =
     (let dx = x (hp r2) - x (hp r1);
          dy = y (hp r2) - y (hp r1);
          dist2 = dx * dx + dy * dy;
          min_dist = radius (hp r1) + radius (hp r2);
          min_dist2 = min_dist * min_dist
      in if dist2 < min_dist2 \<and> dist2 > eps then
           (let dist = sqrt dist2;
                overlap = min_dist - dist;
                delta = resp_coefficient * 0.5 * overlap;
                nx = dx / dist;
                ny = dy / dist;
                h1 = hp(r1 := (hp r1)\<lparr>x := x (hp r1) - nx * delta\<rparr>);
                h2 = h1(r1 := (h1 r1)\<lparr>y := y (h1 r1) - ny * delta\<rparr>);
                h3 = h2(r2 := (h2 r2)\<lparr>x := x (h2 r2) + nx * delta\<rparr>);
                h4 = h3(r2 := (h3 r2)\<lparr>y := y (h3 r2) + ny * delta\<rparr>)
            in h4)
         else hp)"

definition update_particles :: "CollisionSystem \<Rightarrow> real \<Rightarrow> heap \<Rightarrow> heap" where
  "update_particles cs dt hp =
     for_each (\<lambda>p. Particle_update p dt) (particles cs) hp"

definition apply_gravity :: "CollisionSystem \<Rightarrow> real \<Rightarrow> heap \<Rightarrow> heap" where
  "apply_gravity cs dt hp =
     for_each (\<lambda>p. accelerate p 0 (gravity cs * dt)) (particles cs) hp"


text \<open>
  The squared distance of two centres and the guard of \<open>resolveCollision\<close>, named for the
  statements below.
\<close>

definition centre_dist2 :: "heap \<Rightarrow> ref \<Rightarrow> ref \<Rightarrow> real" where
  "centre_dist2 hp r1 r2 =
     (x (hp r2) - x (hp r1)) * (x (hp r2) - x (hp r1))
       + (y (hp r2) - y (hp r1)) * (y (hp r2) - y (hp r1))"

definition overlapping :: "heap \<Rightarrow> ref \<Rightarrow> ref \<Rightarrow> bool" where
  "overlapping hp r1 r2 \<longleftrightarrow>
     centre_dist2 hp r1 r2 < (radius (hp r1) + radius (hp r2)) * (radius (hp r1) + radius (hp r2))
     \<and> centre_dist2 hp r1 r2 > eps"

text \<open>All particles a subtree holds, in the order \<open>query\<close> visits them.\<close>

fun stored :: "QuadTree \<Rightarrow> ref list" where
  "stored (Leaf b ps cap) = ps"
| "stored (Divided b ps cap ne nw se sw) = ps @ stored ne @ stored nw @ stored se @ stored sw"


section \<open>Notions for the statements about the index\<close>

text \<open>
  The deepest recursion \<open>insert\<close> can reach below the four children of a node.
\<close>

fun kids_bound :: "children \<Rightarrow> nat" where
  "kids_bound (ne, nw, se, sw) =
     max (max (depth_bound ne) (depth_bound nw)) (max (depth_bound se) (depth_bound sw))"

text \<open>
  A particle's point is inside a rectangle; every particle of a tree is inside the
  boundary of every node on the way down to the node that holds it.
\<close>

definition inside :: "heap \<Rightarrow> Rect \<Rightarrow> ref \<Rightarrow> bool" where
  "inside hp b p = collidepoint b (x (hp p)) (y (hp p))"

fun well_placed :: "heap \<Rightarrow> QuadTree \<Rightarrow> bool" where
  "well_placed hp (Leaf b ps cap) = (\<forall>p \<in> set ps. inside hp b p)"
| "well_placed hp (Divided b ps cap ne nw se sw) =
     ((\<forall>p \<in> set (ps @ stored ne @ stored nw @ stored se @ stored sw). inside hp b p)
      \<and> well_placed hp ne \<and> well_placed hp nw \<and> well_placed hp se \<and> well_placed hp sw)"

fun stored_kids :: "children \<Rightarrow> ref list" where
  "stored_kids (ne, nw, se, sw) = stored ne @ stored nw @ stored se @ stored sw"

fun well_placed_kids :: "heap \<Rightarrow> children \<Rightarrow> bool" where
  "well_placed_kids hp (ne, nw, se, sw) =
     (well_placed hp ne \<and> well_placed hp nw \<and> well_placed hp se \<and> well_placed hp sw)"

text \<open>
  What one \<open>insert\<close> does to the particles a tree holds: it adds the particle when it
  returns \<open>True\<close> and nothing otherwise, and it keeps the particles well placed.
\<close>

definition adds :: "heap \<Rightarrow> ref \<Rightarrow> QuadTree \<Rightarrow> bool \<Rightarrow> QuadTree \<Rightarrow> bool" where
  "adds hp r t ok t' \<longleftrightarrow>
     mset (stored t') = mset (stored t) + (if ok then {#r#} else {#})
     \<and> (well_placed hp t \<longrightarrow> well_placed hp t')"

definition adds_kids :: "heap \<Rightarrow> ref \<Rightarrow> children \<Rightarrow> bool \<Rightarrow> children \<Rightarrow> bool" where
  "adds_kids hp r kids ok kids' \<longleftrightarrow>
     mset (stored_kids kids') = mset (stored_kids kids) + (if ok then {#r#} else {#})
     \<and> (well_placed_kids hp kids \<longrightarrow> well_placed_kids hp kids')"

text \<open>
  A run of \<open>insert\<close> calls that records the returned flags (\<open>insert_each\<close> drops them), and
  the particles for which the flag was \<open>True\<close>.
\<close>

fun insert_flags :: "heap \<Rightarrow> QuadTree \<Rightarrow> ref list \<Rightarrow> (bool list \<times> QuadTree) option" where
  "insert_flags hp t [] = Some ([], t)"
| "insert_flags hp t (r # rs) =
     (case QuadTree_insert hp t r of None \<Rightarrow> None
      | Some (ok, t') \<Rightarrow>
          (case insert_flags hp t' rs of None \<Rightarrow> None
           | Some (oks, t'') \<Rightarrow> Some (ok # oks, t'')))"

fun accepted :: "ref list \<Rightarrow> bool list \<Rightarrow> ref list" where
  "accepted (r # rs) (ok # oks) = (if ok then r # accepted rs oks else accepted rs oks)"
| "accepted rs oks = []"

text \<open>The half-open rectangle test on integer coordinates.\<close>

definition in_rect :: "int \<Rightarrow> int \<Rightarrow> int \<Rightarrow> int \<Rightarrow> int \<Rightarrow> int \<Rightarrow> bool" where
  "in_rect x0 y0 w h ix iy \<longleftrightarrow> x0 \<le> ix \<and> ix < x0 + w \<and> y0 \<le> iy \<and> iy < y0 + h"


section \<open>Concrete inputs\<close>

text \<open>One particle at rest at (100, 100) in the default arena.\<close>

definition drop_system :: CollisionSystem where
  "drop_system = (CollisionSystem_init 800 600)\<lparr>particles := [0]\<rparr>"

definition drop_heap :: heap where
  "drop_heap = (\<lambda>_. Particle_init 100 100 (255, 255, 255))"

text \<open>
  One particle of radius 6 that has moved from (14, 100) to (4, 100): velocity (-10, 0),
  two units into the left wall.
\<close>

definition wall_system :: CollisionSystem where
  "wall_system = (CollisionSystem_init 800 600)\<lparr>particles := [0]\<rparr>"

definition wall_heap :: heap where
  "wall_heap =
     (\<lambda>_. (Particle_init 4 100 (255, 255, 255))\<lparr>radius := 6, last_pos := (14, 100)\<rparr>)"

text \<open>An arena of 10 by 10 with one particle of radius 6 at (5, 5).\<close>

definition narrow_arena :: CollisionSystem where
  "narrow_arena = (CollisionSystem_init 10 10)\<lparr>particles := [0]\<rparr>"

definition big_particle :: Particle where
  "big_particle = (Particle_init 5 5 (255, 255, 255))\<lparr>radius := 6\<rparr>"

text \<open>Two particles of radius 5 at (100, 100) and (106, 100), at rest.\<close>

definition pair_heap :: heap where
  "pair_heap = (\<lambda>_. Particle_init 0 0 (255, 255, 255))
     (0 := (Particle_init 100 100 (255, 255, 255))\<lparr>radius := 5\<rparr>,
      1 := (Particle_init 106 100 (255, 255, 255))\<lparr>radius := 5\<rparr>)"

text \<open>Two particles of radius 5 whose centres are 0.0005 apart.\<close>

definition near_heap :: heap where
  "near_heap = (\<lambda>_. Particle_init 0 0 (255, 255, 255))
     (0 := (Particle_init 100 100 (255, 255, 255))\<lparr>radius := 5\<rparr>,
      1 := (Particle_init (100 + 1 / 2000) 100 (255, 255, 255))\<lparr>radius := 5\<rparr>)"

text \<open>
  Six particles in the default arena of 800 by 600; the sixth is at (10, 74). The node
  \<open>Rect 0 0 100 75\<close> is three subdivisions below the root.
\<close>

definition six_heap :: heap where
  "six_heap = (\<lambda>_. Particle_init 0 0 (255, 255, 255))
     (0 := Particle_init 10 10 (255, 255, 255),
      1 := Particle_init 20 20 (255, 255, 255),
      2 := Particle_init 30 30 (255, 255, 255),
      3 := Particle_init 40 40 (255, 255, 255),
      4 := Particle_init 60 60 (255, 255, 255),
      5 := Particle_init 10 74 (255, 255, 255))"

definition six_system :: CollisionSystem where
  "six_system = (CollisionSystem_init 800 600)\<lparr>particles := [0, 1, 2, 3, 4, 5]\<rparr>"

definition five_tree :: QuadTree where
  "five_tree = Leaf (Rect 0 0 800 600) [0, 1, 2, 3, 4] 5"

definition six_tree :: QuadTree where
  "six_tree =
     Divided (Rect 0 0 800 600) [] 5
       (Leaf (Rect 400 0 400 300) [] 5)
       (Divided (Rect 0 0 400 300) [] 5
          (Leaf (Rect 200 0 200 150) [] 5)
          (Divided (Rect 0 0 200 150) [] 5
             (Leaf (Rect 100 0 100 75) [] 5)
             (Divided (Rect 0 0 100 75) [] 5
                (Leaf (Rect 50 0 50 37) [] 5)
                (Leaf (Rect 0 0 50 37) [0, 1, 2] 5)
                (Leaf (Rect 50 37 50 37) [4] 5)
                (Leaf (Rect 0 37 50 37) [3] 5))
             (Leaf (Rect 100 75 100 75) [] 5)
             (Leaf (Rect 0 75 100 75) [] 5))
          (Leaf (Rect 200 150 200 150) [] 5)
          (Leaf (Rect 0 150 200 150) [] 5))
       (Leaf (Rect 400 300 400 300) [] 5)
       (Leaf (Rect 0 300 400 300) [] 5)"

text \<open>
  The same six particles with the one at (10, 74) already in the tree and the one at
  (60, 60) coming last.
\<close>

definition held_tree :: QuadTree where
  "held_tree = Leaf (Rect 0 0 800 600) [5, 0, 1, 2, 3] 5"

definition kept_tree :: QuadTree where
  "kept_tree =
     Divided (Rect 0 0 800 600) [] 5
       (Leaf (Rect 400 0 400 300) [] 5)
       (Divided (Rect 0 0 400 300) [] 5
          (Leaf (Rect 200 0 200 150) [] 5)
          (Divided (Rect 0 0 200 150) [] 5
             (Leaf (Rect 100 0 100 75) [] 5)
             (Divided (Rect 0 0 100 75) [5] 5
                (Leaf (Rect 50 0 50 37) [] 5)
                (Leaf (Rect 0 0 50 37) [0, 1, 2] 5)
                (Leaf (Rect 50 37 50 37) [4] 5)
                (Leaf (Rect 0 37 50 37) [3] 5))
             (Leaf (Rect 100 75 100 75) [] 5)
             (Leaf (Rect 0 75 100 75) [] 5))
          (Leaf (Rect 200 150 200 150) [] 5)
          (Leaf (Rect 0 150 200 150) [] 5))
       (Leaf (Rect 400 300 400 300) [] 5)
       (Leaf (Rect 0 300 400 300) [] 5)"


section \<open>The integrator\<close>

text \<open>
  Claim C6. For every particle and every \<open>dt\<close>, \<open>update\<close> sets the new position to
  position + last\_move + (acceleration - last\_move * 0.5) * dt * dt, where last\_move is
  position - previous position; afterwards the previous position is the old position and
  the accumulated acceleration is (0, 0). Radius, colour and mass are not touched.
\<close>

theorem Particle_update_verlet:
  "x (Particle_update p dt)
     = x p + (x p - fst (last_pos p))
         + (fst (accel p) - (x p - fst (last_pos p)) * 0.5) * dt\<^sup>2
   \<and> y (Particle_update p dt)
     = y p + (y p - snd (last_pos p))
         + (snd (accel p) - (y p - snd (last_pos p)) * 0.5) * dt\<^sup>2
   \<and> last_pos (Particle_update p dt) = (x p, y p)
   \<and> accel (Particle_update p dt) = (0, 0)
   \<and> radius (Particle_update p dt) = radius p
   \<and> color (Particle_update p dt) = color p
   \<and> mass (Particle_update p dt) = mass p"
  by (simp add: Particle_update_def VELOCITY_DAMPENING_def Let_def power2_eq_square)


section \<open>Loops over the particle list\<close>

lemma for_each_other:
  "r \<notin> set rs \<Longrightarrow> for_each f rs hp r = hp r"
  by (induction rs arbitrary: hp) auto

lemma for_each_distinct:
  "distinct rs \<Longrightarrow> r \<in> set rs \<Longrightarrow> for_each f rs hp r = f (hp r)"
  by (induction rs arbitrary: hp) (auto simp: for_each_other)

lemma for_each_preserve:
  assumes "\<And>p. Q p \<Longrightarrow> Q (f p)" and "Q (hp r)"
  shows "Q (for_each f rs hp r)"
  using assms(2)
proof (induction rs arbitrary: hp)
  case Nil
  then show ?case by simp
next
  case (Cons a rs)
  have "Q ((hp(a := f (hp a))) r)"
    using Cons.prems assms(1) by (cases "a = r") auto
  then have "Q (for_each f rs (hp(a := f (hp a))) r)"
    by (rule Cons.IH)
  then show ?case by (simp only: for_each.simps)
qed

text \<open>
  A particle that is listed, perhaps more than once, ends in a state the body produces:
  what the body establishes from every state that satisfies \<open>I\<close>, and keeps, holds after
  the loop.
\<close>

lemma for_each_establish:
  assumes est: "\<And>p. I p \<Longrightarrow> Q (f p)" and keep: "\<And>p. I p \<Longrightarrow> I (f p)"
    and "r \<in> set rs" and "I (hp r)"
  shows "Q (for_each f rs hp r)"
proof -
  have step: "\<And>p. I p \<and> Q p \<Longrightarrow> I (f p) \<and> Q (f p)"
    using est keep by blast
  have "I (for_each f rs hp r) \<and> Q (for_each f rs hp r)"
    using assms(3,4)
  proof (induction rs arbitrary: hp)
    case Nil
    then show ?case by simp
  next
    case (Cons a rs)
    show ?case
    proof (cases "a = r")
      case True
      have "I (f (hp r)) \<and> Q (f (hp r))"
        using Cons.prems(2) est keep by blast
      then have "I ((hp(a := f (hp a))) r) \<and> Q ((hp(a := f (hp a))) r)"
        using True by simp
      then have "I (for_each f rs (hp(a := f (hp a))) r) \<and> Q (for_each f rs (hp(a := f (hp a))) r)"
        using for_each_preserve[where Q = "\<lambda>p. I p \<and> Q p" and f = f and r = r, OF step]
        by blast
      then show ?thesis by (simp only: for_each.simps)
    next
      case False
      then have "r \<in> set rs" "I ((hp(a := f (hp a))) r)"
        using Cons.prems by auto
      then have "I (for_each f rs (hp(a := f (hp a))) r) \<and> Q (for_each f rs (hp(a := f (hp a))) r)"
        by (rule Cons.IH)
      then show ?thesis by (simp only: for_each.simps)
    qed
  qed
  then show ?thesis ..
qed


section \<open>Gravity and one integration step\<close>

text \<open>
  Claim C7, as amended. For a listed particle at rest (position equal to previous position)
  with no accumulated acceleration, \<open>apply_gravity\<close> with \<open>dt\<close> followed by
  \<open>update_particles\<close> with \<open>dt\<close> leaves the previous position as it was, leaves \<open>x\<close>, and
  increases \<open>y\<close> by exactly gravity * dt * dt * dt: the acceleration that is accumulated is
  gravity * dt, and \<open>update\<close> multiplies it by dt * dt. The damping term is zero here.
\<close>

theorem gravity_substep:
  assumes "distinct (particles cs)" and "r \<in> set (particles cs)"
    and "last_pos (hp r) = (x (hp r), y (hp r))"
    and "accel (hp r) = (0, 0)"
  shows "last_pos (update_particles cs dt (apply_gravity cs dt hp) r) = last_pos (hp r)
     \<and> x (update_particles cs dt (apply_gravity cs dt hp) r) = x (hp r)
     \<and> y (update_particles cs dt (apply_gravity cs dt hp) r) = y (hp r) + gravity cs * dt ^ 3"
  using assms
  by (simp add: update_particles_def apply_gravity_def for_each_distinct Particle_update_def
      accelerate_def Let_def power3_eq_cube)

theorem gravity_substep_witness:
  "last_pos (update_particles drop_system 0.02 (apply_gravity drop_system 0.02 drop_heap) 0)
     = (100, 100)
   \<and> x (update_particles drop_system 0.02 (apply_gravity drop_system 0.02 drop_heap) 0) = 100
   \<and> y (update_particles drop_system 0.02 (apply_gravity drop_system 0.02 drop_heap) 0)
     = 100 + 2000 * 0.02 ^ 3"
proof -
  have h: "distinct (particles drop_system)" "0 \<in> set (particles drop_system)"
    "last_pos (drop_heap 0) = (x (drop_heap 0), y (drop_heap 0))" "accel (drop_heap 0) = (0, 0)"
    by (simp_all add: drop_system_def drop_heap_def Particle_init_def)
  have v: "last_pos (drop_heap 0) = (100, 100)" "x (drop_heap 0) = 100" "y (drop_heap 0) = 100"
    "gravity drop_system = 2000"
    by (simp_all add: drop_system_def drop_heap_def Particle_init_def CollisionSystem_init_def)
  from gravity_substep[where cs = drop_system and r = 0 and hp = drop_heap and dt = "0.02", OF h]
  show ?thesis
    by (simp only: v)
qed

text \<open>
  The claim as stated fails for the default gravity 2000 and \<open>sub_dt = 0.02\<close>: the particle
  at rest moves down by 0.016, while gravity * sub\_dt * sub\_dt is 0.8.
\<close>

theorem gravity_substep_counterexample:
  "last_pos (drop_heap 0) = (x (drop_heap 0), y (drop_heap 0))
   \<and> accel (drop_heap 0) = (0, 0)
   \<and> y (update_particles drop_system 0.02 (apply_gravity drop_system 0.02 drop_heap) 0)
       - y (drop_heap 0) = 0.016
   \<and> gravity drop_system * 0.02\<^sup>2 = 0.8
   \<and> \<bar>(y (update_particles drop_system 0.02 (apply_gravity drop_system 0.02 drop_heap) 0)
          - y (drop_heap 0)) - gravity drop_system * 0.02\<^sup>2\<bar> > 0.78"
  by (simp add: drop_system_def drop_heap_def CollisionSystem_init_def Particle_init_def
      update_particles_def apply_gravity_def Particle_update_def accelerate_def Let_def
      VELOCITY_DAMPENING_def power2_eq_square)


section \<open>Wall resolution\<close>

lemma wall_body_radius: "radius (wall_collisions_body cs p) = radius p"
  by (simp add: wall_collisions_body_def wall_lr_def wall_bt_def setVelocity_def
      getVelocity_def Let_def)

lemma wall_body_bounds:
  assumes "2 * radius p \<le> real_of_int (width cs)" "2 * radius p \<le> real_of_int (height cs)"
  shows "radius p \<le> x (wall_collisions_body cs p)
     \<and> x (wall_collisions_body cs p) \<le> real_of_int (width cs) - radius p
     \<and> radius p \<le> y (wall_collisions_body cs p)
     \<and> y (wall_collisions_body cs p) \<le> real_of_int (height cs) - radius p"
  using assms
  by (simp add: wall_collisions_body_def wall_lr_def wall_bt_def setVelocity_def
      getVelocity_def Let_def)

text \<open>
  Claim C8, as amended. After wall resolution every particle of the solver's list whose
  diameter is at most the arena's width and height satisfies
  radius \<le> x \<le> width - radius and radius \<le> y \<le> height - radius; its radius is unchanged.
\<close>

theorem wall_containment:
  assumes "r \<in> set (particles cs)"
    and "2 * radius (hp r) \<le> real_of_int (width cs)"
    and "2 * radius (hp r) \<le> real_of_int (height cs)"
  shows "radius (wall_collisions cs hp r) = radius (hp r)
     \<and> radius (hp r) \<le> x (wall_collisions cs hp r)
     \<and> x (wall_collisions cs hp r) \<le> real_of_int (width cs) - radius (hp r)
     \<and> radius (hp r) \<le> y (wall_collisions cs hp r)
     \<and> y (wall_collisions cs hp r) \<le> real_of_int (height cs) - radius (hp r)"
proof -
  let ?I = "\<lambda>p::Particle. radius p = radius (hp r)"
  let ?Q = "\<lambda>p::Particle. radius p = radius (hp r)
     \<and> radius (hp r) \<le> x p \<and> x p \<le> real_of_int (width cs) - radius (hp r)
     \<and> radius (hp r) \<le> y p \<and> y p \<le> real_of_int (height cs) - radius (hp r)"
  have "?Q (for_each (wall_collisions_body cs) (particles cs) hp r)"
  proof (rule for_each_establish[where I = ?I and Q = ?Q])
    fix p :: Particle assume "radius p = radius (hp r)"
    then show "?Q (wall_collisions_body cs p)"
      using wall_body_bounds[of p cs] assms(2,3) by (simp add: wall_body_radius)
  next
    fix p :: Particle assume "radius p = radius (hp r)"
    then show "radius (wall_collisions_body cs p) = radius (hp r)"
      by (simp add: wall_body_radius)
  next
    show "r \<in> set (particles cs)" by (rule assms(1))
  next
    show "radius (hp r) = radius (hp r)" ..
  qed
  then show ?thesis by (simp add: wall_collisions_def)
qed

theorem wall_containment_witness:
  "radius (wall_collisions wall_system wall_heap 0) = 6
     \<and> 6 \<le> x (wall_collisions wall_system wall_heap 0)
     \<and> x (wall_collisions wall_system wall_heap 0) \<le> 800 - 6
     \<and> 6 \<le> y (wall_collisions wall_system wall_heap 0)
     \<and> y (wall_collisions wall_system wall_heap 0) \<le> 600 - 6"
proof -
  have h: "0 \<in> set (particles wall_system)"
    "2 * radius (wall_heap 0) \<le> real_of_int (width wall_system)"
    "2 * radius (wall_heap 0) \<le> real_of_int (height wall_system)"
    by (simp_all add: wall_system_def wall_heap_def Particle_init_def CollisionSystem_init_def)
  have v: "radius (wall_heap 0) = 6" "real_of_int (width wall_system) = 800"
    "real_of_int (height wall_system) = 600"
    by (simp_all add: wall_system_def wall_heap_def Particle_init_def CollisionSystem_init_def)
  from wall_containment[where cs = wall_system and r = 0 and hp = wall_heap, OF h]
  show ?thesis
    by (simp only: v)
qed

text \<open>
  Without the bound on the diameter the claim fails: in an arena 10 wide a particle of
  radius 6 is put at \<open>x = 6\<close>, beyond width - radius = 4.
\<close>

theorem wall_containment_counterexample:
  "x (wall_collisions narrow_arena (\<lambda>_. big_particle) 0) = 6
   \<and> real_of_int (width narrow_arena)
       - radius (wall_collisions narrow_arena (\<lambda>_. big_particle) 0) = 4
   \<and> \<not> (x (wall_collisions narrow_arena (\<lambda>_. big_particle) 0)
          \<le> real_of_int (width narrow_arena)
              - radius (wall_collisions narrow_arena (\<lambda>_. big_particle) 0))"
  by (simp add: wall_collisions_def narrow_arena_def big_particle_def CollisionSystem_init_def
      Particle_init_def wall_collisions_body_def wall_lr_def wall_bt_def setVelocity_def
      getVelocity_def Let_def)

lemma wall_lr_left:
  assumes "x p - radius p < 0"
  shows "wall_lr w p = p\<lparr>x := radius p,
           last_pos := (radius p + (radius p - fst (last_pos p)) * restitution,
                        snd (last_pos p))\<rparr>"
  using assms by (simp add: wall_lr_def getVelocity_def setVelocity_def Let_def)

lemma wall_bt_inside:
  assumes "0 \<le> y p - radius p" "y p + radius p \<le> h"
  shows "wall_bt h p = p"
  using assms by (simp add: wall_bt_def)

text \<open>
  Claim C3, as amended. For every listed particle that has crossed the left wall
  (\<open>x - radius < 0\<close>) while moving with velocity (-v, 0), and that crosses neither the
  bottom nor the top wall, wall resolution sets \<open>x\<close> to the radius, leaves \<open>y\<close>, and leaves
  the particle with velocity ((v - d) * 0.8, 0), where d = radius - x is the depth of the
  crossing: the velocity is read after the position has been clamped, so what is reflected
  and scaled by 0.8 is the displacement from the previous position to the wall. The other
  axis's component is unchanged, and the new previous position is the one
  \<open>setVelocity\<close> computes with \<open>dt = 1\<close>.
\<close>

theorem wall_left_reflection:
  assumes "distinct (particles cs)" and "r \<in> set (particles cs)"
    and "x (hp r) - radius (hp r) < 0"
    and "getVelocity (hp r) = (- v, 0)"
    and "0 \<le> y (hp r) - radius (hp r)"
    and "y (hp r) + radius (hp r) \<le> real_of_int (height cs)"
  shows "x (wall_collisions cs hp r) = radius (hp r)
     \<and> y (wall_collisions cs hp r) = y (hp r)
     \<and> getVelocity (wall_collisions cs hp r)
         = ((v - (radius (hp r) - x (hp r))) * 0.8, 0)
     \<and> last_pos (wall_collisions cs hp r)
         = (let p1 = (hp r)\<lparr>x := radius (hp r)\<rparr>
            in last_pos (setVelocity p1 (- fst (getVelocity p1) * 0.8) (snd (getVelocity p1)) 1))"
proof -
  have "wall_collisions cs hp r = wall_collisions_body cs (hp r)"
    using assms(1,2) by (simp add: wall_collisions_def for_each_distinct)
  moreover have "wall_lr (real_of_int (width cs)) (hp r) = (hp r)\<lparr>x := radius (hp r),
           last_pos := (radius (hp r) + (radius (hp r) - fst (last_pos (hp r))) * restitution,
                        snd (last_pos (hp r)))\<rparr>"
    using assms(3) by (rule wall_lr_left)
  ultimately have eq: "wall_collisions cs hp r = (hp r)\<lparr>x := radius (hp r),
           last_pos := (radius (hp r) + (radius (hp r) - fst (last_pos (hp r))) * restitution,
                        snd (last_pos (hp r)))\<rparr>"
    using assms(5,6) by (simp add: wall_collisions_body_def wall_bt_inside)
  have v: "fst (last_pos (hp r)) = x (hp r) + v" "snd (last_pos (hp r)) = y (hp r)"
    using assms(4) by (auto simp: getVelocity_def)
  show ?thesis
    unfolding eq using v
    by (simp add: getVelocity_def setVelocity_def restitution_def Let_def field_simps)
qed

theorem wall_left_reflection_witness:
  "x (wall_collisions wall_system wall_heap 0) = 6
     \<and> y (wall_collisions wall_system wall_heap 0) = 100
     \<and> getVelocity (wall_collisions wall_system wall_heap 0) = (32 / 5, 0)"
proof -
  have h: "distinct (particles wall_system)" "0 \<in> set (particles wall_system)"
    "x (wall_heap 0) - radius (wall_heap 0) < 0" "getVelocity (wall_heap 0) = (- 10, 0)"
    "0 \<le> y (wall_heap 0) - radius (wall_heap 0)"
    "y (wall_heap 0) + radius (wall_heap 0) \<le> real_of_int (height wall_system)"
    by (simp_all add: wall_system_def wall_heap_def Particle_init_def CollisionSystem_init_def
        getVelocity_def)
  have v: "radius (wall_heap 0) = 6" "x (wall_heap 0) = 4" "y (wall_heap 0) = 100"
    by (simp_all add: wall_heap_def Particle_init_def)
  from wall_left_reflection[where cs = wall_system and r = 0 and hp = wall_heap and v = 10, OF h]
  show ?thesis
    by (simp add: v)
qed

text \<open>
  The claim as stated fails: a particle of radius 6 that moved from \<open>x = 14\<close> to \<open>x = 4\<close>
  (velocity (-10, 0), two units into the wall) leaves with velocity (6.4, 0), not with
  (10 * 0.8, 0).
\<close>

theorem wall_left_reflection_counterexample:
  "getVelocity (wall_heap 0) = (- 10, 0)
   \<and> x (wall_heap 0) - radius (wall_heap 0) < 0
   \<and> getVelocity (wall_collisions wall_system wall_heap 0) = (32 / 5, 0)
   \<and> getVelocity (wall_collisions wall_system wall_heap 0) \<noteq> (10 * 0.8, 0)"
  by (simp add: wall_system_def wall_heap_def CollisionSystem_init_def Particle_init_def
      wall_collisions_def wall_collisions_body_def wall_lr_def wall_bt_def
      getVelocity_def setVelocity_def restitution_def Let_def)


section \<open>Pairwise resolution\<close>

lemma resolve_skip: "\<not> overlapping hp r1 r2 \<Longrightarrow> resolveCollision hp r1 r2 = hp"
  unfolding resolveCollision_def overlapping_def centre_dist2_def Let_def
  by (rule if_not_P)

lemma overlapping_distinct: "overlapping hp r1 r2 \<Longrightarrow> r1 \<noteq> r2"
  by (auto simp: overlapping_def centre_dist2_def eps_def)

lemma overlapping_pos: "overlapping hp r1 r2 \<Longrightarrow> 0 < centre_dist2 hp r1 r2"
  by (auto simp: overlapping_def eps_def intro: less_trans[rotated])

lemma resolve_first:
  assumes "overlapping hp r1 r2"
  shows "resolveCollision hp r1 r2 r1 = (hp r1)
     \<lparr>x := x (hp r1) - (x (hp r2) - x (hp r1)) / sqrt (centre_dist2 hp r1 r2)
            * (0.5 * (radius (hp r1) + radius (hp r2) - sqrt (centre_dist2 hp r1 r2))),
      y := y (hp r1) - (y (hp r2) - y (hp r1)) / sqrt (centre_dist2 hp r1 r2)
            * (0.5 * (radius (hp r1) + radius (hp r2) - sqrt (centre_dist2 hp r1 r2)))\<rparr>"
  using assms overlapping_distinct[OF assms]
  by (simp add: resolveCollision_def overlapping_def centre_dist2_def Let_def
      resp_coefficient_def)

lemma resolve_second:
  assumes "overlapping hp r1 r2"
  shows "resolveCollision hp r1 r2 r2 = (hp r2)
     \<lparr>x := x (hp r2) + (x (hp r2) - x (hp r1)) / sqrt (centre_dist2 hp r1 r2)
            * (0.5 * (radius (hp r1) + radius (hp r2) - sqrt (centre_dist2 hp r1 r2))),
      y := y (hp r2) + (y (hp r2) - y (hp r1)) / sqrt (centre_dist2 hp r1 r2)
            * (0.5 * (radius (hp r1) + radius (hp r2) - sqrt (centre_dist2 hp r1 r2)))\<rparr>"
  using assms overlapping_distinct[OF assms]
  by (simp add: resolveCollision_def overlapping_def centre_dist2_def Let_def
      resp_coefficient_def)

lemma overlapping_moves:
  assumes "overlapping hp r1 r2"
  shows "resolveCollision hp r1 r2 r1 \<noteq> hp r1"
proof -
  let ?d2 = "centre_dist2 hp r1 r2"
  let ?md = "radius (hp r1) + radius (hp r2)"
  let ?dx = "x (hp r2) - x (hp r1)"
  let ?dy = "y (hp r2) - y (hp r1)"
  have d2: "0 < ?d2" "?d2 < ?md * ?md"
    using assms overlapping_pos[OF assms] by (auto simp: overlapping_def)
  have pos: "0 < sqrt ?d2" using d2(1) by simp
  have "sqrt ?d2 \<noteq> ?md"
  proof
    assume "sqrt ?d2 = ?md"
    then have "?md * ?md = ?d2" using d2(1) by (metis real_sqrt_mult_self abs_of_pos)
    then show False using d2(2) by simp
  qed
  then have delta: "0.5 * (?md - sqrt ?d2) \<noteq> 0" by simp
  have "?dx \<noteq> 0 \<or> ?dy \<noteq> 0"
    using d2(1) by (auto simp: centre_dist2_def)
  then have "?dx / sqrt ?d2 * (0.5 * (?md - sqrt ?d2)) \<noteq> 0
      \<or> ?dy / sqrt ?d2 * (0.5 * (?md - sqrt ?d2)) \<noteq> 0"
    using pos delta by auto
  then have "x (resolveCollision hp r1 r2 r1) \<noteq> x (hp r1)
      \<or> y (resolveCollision hp r1 r2 r1) \<noteq> y (hp r1)"
    unfolding resolve_first[OF assms] by auto
  then show ?thesis by auto
qed

lemma unit_normal:
  assumes "0 < centre_dist2 hp r1 r2"
  shows "((x (hp r2) - x (hp r1)) / sqrt (centre_dist2 hp r1 r2))\<^sup>2
       + ((y (hp r2) - y (hp r1)) / sqrt (centre_dist2 hp r1 r2))\<^sup>2 = 1"
proof -
  have "((x (hp r2) - x (hp r1)) / sqrt (centre_dist2 hp r1 r2))\<^sup>2
       + ((y (hp r2) - y (hp r1)) / sqrt (centre_dist2 hp r1 r2))\<^sup>2
       = ((x (hp r2) - x (hp r1))\<^sup>2 + (y (hp r2) - y (hp r1))\<^sup>2)
           / (sqrt (centre_dist2 hp r1 r2))\<^sup>2"
    by (simp add: power_divide add_divide_distrib)
  also have "\<dots> = centre_dist2 hp r1 r2 / centre_dist2 hp r1 r2"
    using assms by (simp add: centre_dist2_def power2_eq_square)
  also have "\<dots> = 1" using assms by simp
  finally show ?thesis .
qed

lemma sqrt_36: "sqrt 36 = 6"
  using real_sqrt_abs[of 6] by simp

lemma sqrt_100: "sqrt 100 = 10"
  using real_sqrt_abs[of 10] by simp

text \<open>
  Claim C2, as amended. \<open>resolveCollision\<close> changes the heap exactly when
  eps < squared distance < squared (radius\_p + radius\_q), with eps = 0.000001: coincident
  centres and centres at most 0.001 apart are skipped. In that case, with overlap = radius\_p + radius\_q
  - distance and (nx, ny) the unit vector from the first centre to the second, the first
  particle is displaced by -0.5 * overlap * (nx, ny) and the second by
  +0.5 * overlap * (nx, ny); the overlap is positive when the sum of the radii is.
  Otherwise nothing changes. The scenario of the two particles of radius 5 is the witness.
\<close>

theorem resolve_position_correction:
  "(resolveCollision hp r1 r2 \<noteq> hp \<longleftrightarrow> overlapping hp r1 r2)
   \<and> (overlapping hp r1 r2 \<longrightarrow>
        (let dist = sqrt (centre_dist2 hp r1 r2);
             overlap = radius (hp r1) + radius (hp r2) - dist;
             nx = (x (hp r2) - x (hp r1)) / dist;
             ny = (y (hp r2) - y (hp r1)) / dist
         in nx\<^sup>2 + ny\<^sup>2 = 1
            \<and> (0 < radius (hp r1) + radius (hp r2) \<longrightarrow> 0 < overlap)
            \<and> x (resolveCollision hp r1 r2 r1) = x (hp r1) - nx * (0.5 * overlap)
            \<and> y (resolveCollision hp r1 r2 r1) = y (hp r1) - ny * (0.5 * overlap)
            \<and> x (resolveCollision hp r1 r2 r2) = x (hp r2) + nx * (0.5 * overlap)
            \<and> y (resolveCollision hp r1 r2 r2) = y (hp r2) + ny * (0.5 * overlap)))"
proof (intro conjI impI)
  show "resolveCollision hp r1 r2 \<noteq> hp \<longleftrightarrow> overlapping hp r1 r2"
    using resolve_skip[of hp r1 r2] overlapping_moves[of hp r1 r2] by auto
next
  assume ov: "overlapping hp r1 r2"
  then have d2: "0 < centre_dist2 hp r1 r2" by (rule overlapping_pos)
  have lt: "sqrt (centre_dist2 hp r1 r2) < radius (hp r1) + radius (hp r2)"
    if p: "0 < radius (hp r1) + radius (hp r2)"
  proof -
    have "centre_dist2 hp r1 r2 < (radius (hp r1) + radius (hp r2))\<^sup>2"
      using ov by (simp add: overlapping_def power2_eq_square)
    then have "sqrt (centre_dist2 hp r1 r2) < sqrt ((radius (hp r1) + radius (hp r2))\<^sup>2)"
      by (simp only: real_sqrt_less_iff)
    then show ?thesis using p by simp
  qed
  show "let dist = sqrt (centre_dist2 hp r1 r2);
             overlap = radius (hp r1) + radius (hp r2) - dist;
             nx = (x (hp r2) - x (hp r1)) / dist;
             ny = (y (hp r2) - y (hp r1)) / dist
         in nx\<^sup>2 + ny\<^sup>2 = 1
            \<and> (0 < radius (hp r1) + radius (hp r2) \<longrightarrow> 0 < overlap)
            \<and> x (resolveCollision hp r1 r2 r1) = x (hp r1) - nx * (0.5 * overlap)
            \<and> y (resolveCollision hp r1 r2 r1) = y (hp r1) - ny * (0.5 * overlap)
            \<and> x (resolveCollision hp r1 r2 r2) = x (hp r2) + nx * (0.5 * overlap)
            \<and> y (resolveCollision hp r1 r2 r2) = y (hp r2) + ny * (0.5 * overlap)"
    unfolding Let_def
    using unit_normal[OF d2] lt
    by (simp add: resolve_first[OF ov] resolve_second[OF ov])
qed

text \<open>
  The scenario: the particles of radius 5 at (100, 100) and (106, 100) end at (98, 100) and
  (108, 100), each moved 2 along the x axis, at distance 10.
\<close>

theorem resolve_position_correction_witness:
  "overlapping pair_heap 0 1
   \<and> resolveCollision pair_heap 0 1 \<noteq> pair_heap
   \<and> x (resolveCollision pair_heap 0 1 0) = 98 \<and> y (resolveCollision pair_heap 0 1 0) = 100
   \<and> x (resolveCollision pair_heap 0 1 1) = 108 \<and> y (resolveCollision pair_heap 0 1 1) = 100
   \<and> sqrt (centre_dist2 (resolveCollision pair_heap 0 1) 0 1) = 10"
proof -
  have ov: "overlapping pair_heap 0 1"
    by (simp add: overlapping_def centre_dist2_def pair_heap_def Particle_init_def eps_def)
  have d: "centre_dist2 pair_heap 0 1 = 36"
    by (simp add: centre_dist2_def pair_heap_def Particle_init_def)
  have v: "x (pair_heap 0) = 100" "y (pair_heap 0) = 100"
      "x (pair_heap 1) = 106" "y (pair_heap 1) = 100"
      "radius (pair_heap 0) = 5" "radius (pair_heap 1) = 5"
    by (simp_all add: pair_heap_def Particle_init_def)
  from resolve_position_correction[of pair_heap 0 1] ov
  have r: "x (resolveCollision pair_heap 0 1 0) = 98" "y (resolveCollision pair_heap 0 1 0) = 100"
          "x (resolveCollision pair_heap 0 1 1) = 108" "y (resolveCollision pair_heap 0 1 1) = 100"
    and m: "resolveCollision pair_heap 0 1 \<noteq> pair_heap"
    by (simp_all add: Let_def d v sqrt_36 del: One_nat_def)
  have "centre_dist2 (resolveCollision pair_heap 0 1) 0 1 = 100"
    by (simp add: centre_dist2_def r del: One_nat_def)
  then show ?thesis using ov r m by (simp add: sqrt_100 del: One_nat_def)
qed

text \<open>
  The claim as stated fails: with the centres 0.0005 apart the squared distance is
  positive and below the squared sum of the radii, and no position is changed.
\<close>

theorem resolve_position_correction_counterexample:
  "0 < centre_dist2 near_heap 0 1
   \<and> centre_dist2 near_heap 0 1 < (radius (near_heap 0) + radius (near_heap 1))\<^sup>2
   \<and> resolveCollision near_heap 0 1 = near_heap"
  by (simp add: resolveCollision_def centre_dist2_def near_heap_def Particle_init_def eps_def
      Let_def power2_eq_square)

text \<open>
  Claim C9. \<open>resolveCollision\<close> is a pure position correction: every particle of the heap
  keeps its previous position, accumulated acceleration, radius, colour and mass; only
  \<open>x\<close> and \<open>y\<close> can differ, and only for the two particles of the call.
\<close>

theorem resolve_frame:
  "resolveCollision hp r1 r2 r
     = (hp r)\<lparr>x := x (resolveCollision hp r1 r2 r), y := y (resolveCollision hp r1 r2 r)\<rparr>
   \<and> last_pos (resolveCollision hp r1 r2 r) = last_pos (hp r)
   \<and> accel (resolveCollision hp r1 r2 r) = accel (hp r)
   \<and> radius (resolveCollision hp r1 r2 r) = radius (hp r)
   \<and> color (resolveCollision hp r1 r2 r) = color (hp r)
   \<and> mass (resolveCollision hp r1 r2 r) = mass (hp r)
   \<and> (r \<noteq> r1 \<and> r \<noteq> r2 \<longrightarrow> resolveCollision hp r1 r2 r = hp r)"
  by (simp add: resolveCollision_def Let_def)

theorem resolve_frame_witness:
  "last_pos (resolveCollision pair_heap 0 1 0) = (100, 100)
   \<and> last_pos (resolveCollision pair_heap 0 1 1) = (106, 100)
   \<and> accel (resolveCollision pair_heap 0 1 0) = (0, 0)
   \<and> radius (resolveCollision pair_heap 0 1 1) = 5
   \<and> color (resolveCollision pair_heap 0 1 0) = (255, 255, 255)
   \<and> resolveCollision pair_heap 0 1 2 = pair_heap 2"
  using resolve_frame[of pair_heap 0 1 0] resolve_frame[of pair_heap 0 1 1]
    resolve_frame[of pair_heap 0 1 2]
  by (simp add: pair_heap_def Particle_init_def)


section \<open>The spatial index\<close>

lemma scan_append: "scan hp rg ps found = found @ scan hp rg ps []"
proof (induction ps arbitrary: found)
  case Nil
  show ?case by simp
next
  case (Cons p ps)
  show ?case
    using Cons.IH[of "found @ [p]"] Cons.IH[of "[p]"] Cons.IH[of found]
    by simp
qed

lemma query_append: "query hp t rg found = found @ query hp t rg []"
proof (induction t arbitrary: found)
  case (Leaf b ps cap)
  show ?case using scan_append[of hp rg ps found] by simp
next
  case (Divided b ps cap ne nw se sw)
  show ?case
  proof (cases "colliderect b rg")
    case False
    then show ?thesis by simp
  next
    case True
    have unfold: "query hp (Divided b ps cap ne nw se sw) rg acc
        = query hp sw rg (query hp se rg (query hp nw rg (query hp ne rg (scan hp rg ps acc))))"
      for acc
      using True by (simp add: Let_def)
    have flat: "query hp sw rg (query hp se rg (query hp nw rg (query hp ne rg (scan hp rg ps acc))))
        = acc @ scan hp rg ps [] @ query hp ne rg [] @ query hp nw rg []
            @ query hp se rg [] @ query hp sw rg []"
      for acc
      using Divided.IH(4)[of "query hp se rg (query hp nw rg (query hp ne rg (scan hp rg ps acc)))"]
        Divided.IH(3)[of "query hp nw rg (query hp ne rg (scan hp rg ps acc))"]
        Divided.IH(2)[of "query hp ne rg (scan hp rg ps acc)"]
        Divided.IH(1)[of "scan hp rg ps acc"]
        scan_append[of hp rg ps acc]
      by simp
    show ?thesis
      using flat[of found] flat[of "[]"] by (simp only: unfold append_Nil)
  qed
qed

subsection \<open>insert always returns, and the fuel does not change what it returns\<close>

lemma insert_children_returns:
  assumes f: "\<And>t. depth_bound t \<le> n \<Longrightarrow> \<exists>ok t'. f t = Some (ok, t') \<and> depth_bound t' \<le> depth_bound t"
    and kb: "kids_bound kids \<le> n"
  shows "\<exists>ok kids'. insert_children f kids = Some (ok, kids') \<and> kids_bound kids' \<le> kids_bound kids"
proof -
  obtain ne nw se sw where kids: "kids = (ne, nw, se, sw)"
    by (cases kids) auto
  from kb kids have b: "depth_bound ne \<le> n" "depth_bound nw \<le> n" "depth_bound se \<le> n" "depth_bound sw \<le> n"
    by auto
  from f[OF b(1)] obtain ok1 ne' where 1: "f ne = Some (ok1, ne')" "depth_bound ne' \<le> depth_bound ne" by blast
  from f[OF b(2)] obtain ok2 nw' where 2: "f nw = Some (ok2, nw')" "depth_bound nw' \<le> depth_bound nw" by blast
  from f[OF b(3)] obtain ok3 se' where 3: "f se = Some (ok3, se')" "depth_bound se' \<le> depth_bound se" by blast
  from f[OF b(4)] obtain ok4 sw' where 4: "f sw = Some (ok4, sw')" "depth_bound sw' \<le> depth_bound sw" by blast
  show ?thesis
    unfolding kids insert_children_def
    using 1 2 3 4 by auto
qed

lemma move_existing_returns:
  assumes f: "\<And>t r. depth_bound t \<le> n \<Longrightarrow> \<exists>ok t'. ins t r = Some (ok, t') \<and> depth_bound t' \<le> depth_bound t"
    and kb: "kids_bound kids \<le> n"
  shows "\<exists>kids' kept'. move_existing ins ps kids kept = Some (kids', kept') \<and> kids_bound kids' \<le> kids_bound kids"
  using kb
proof (induction ps arbitrary: kids kept)
  case Nil
  then show ?case by simp
next
  case (Cons p ps)
  from insert_children_returns[where f = "\<lambda>t. ins t p", OF f Cons.prems]
  obtain ok kids1 where 1: "insert_children (\<lambda>t. ins t p) kids = Some (ok, kids1)"
    "kids_bound kids1 \<le> kids_bound kids" by blast
  then have "kids_bound kids1 \<le> n" using Cons.prems by simp
  from Cons.IH[OF this, of "if ok then kept else kept @ [p]"]
  obtain kids' kept' where 2: "move_existing ins ps kids1 (if ok then kept else kept @ [p]) = Some (kids', kept')"
    "kids_bound kids' \<le> kids_bound kids1" by blast
  show ?case using 1 2 by auto
qed

lemma collidepoint_width: "collidepoint b px py \<Longrightarrow> 1 \<le> rect_w b"
  by (auto simp: collidepoint_def Let_def)

lemma subdivide_bound: "1 \<le> rect_w b \<Longrightarrow> kids_bound (subdivide b cap) \<le> nat (rect_w b)"
  by (auto simp: subdivide_def QuadTree_init_def Let_def)

text \<open>
  With fuel \<open>depth_bound t\<close> or more, \<open>insert\<close> returns, and the bound of the tree it leaves
  is not larger: a leaf that subdivides has width at least 1, and its children have half
  that width.
\<close>

lemma insert_fuel_returns:
  "depth_bound t \<le> n \<Longrightarrow> \<exists>ok t'. insert_fuel n hp t r = Some (ok, t') \<and> depth_bound t' \<le> depth_bound t"
proof (induction n arbitrary: t r)
  case 0
  then show ?case by (cases t) auto
next
  case (Suc n)
  have ih: "\<And>t r. depth_bound t \<le> n \<Longrightarrow> \<exists>ok t'. insert_fuel n hp t r = Some (ok, t') \<and> depth_bound t' \<le> depth_bound t"
    by (rule Suc.IH)
  show ?case
  proof (cases t)
    case (Leaf b ps cap)
    show ?thesis
    proof (cases "collidepoint b (x (hp r)) (y (hp r)) \<and> \<not> int (length ps) < cap")
      case False
      then show ?thesis using Leaf by auto
    next
      case True
      then have w: "1 \<le> rect_w b" using collidepoint_width by blast
      have kb: "kids_bound (subdivide b cap) \<le> nat (rect_w b)"
        using w by (rule subdivide_bound)
      have "nat (rect_w b) \<le> n" using Suc.prems Leaf by simp
      with kb have kn: "kids_bound (subdivide b cap) \<le> n" by simp
      from move_existing_returns[where ins = "insert_fuel n hp", OF ih kn, of ps "[]"]
      obtain kids1 kept where 1: "move_existing (insert_fuel n hp) ps (subdivide b cap) [] = Some (kids1, kept)"
        "kids_bound kids1 \<le> kids_bound (subdivide b cap)" by blast
      then have "kids_bound kids1 \<le> n" using kn by simp
      from insert_children_returns[where f = "\<lambda>t. insert_fuel n hp t r", OF ih this]
      obtain ok kids2 where 2: "insert_children (\<lambda>t. insert_fuel n hp t r) kids1 = Some (ok, kids2)"
        "kids_bound kids2 \<le> kids_bound kids1" by blast
      obtain ne nw se sw where k2: "kids2 = (ne, nw, se, sw)" by (cases kids2) auto
      have "insert_fuel (Suc n) hp t r = Some (ok, Divided b kept cap ne nw se sw)"
        using True Leaf 1 2 k2 by simp
      moreover have "depth_bound (Divided b kept cap ne nw se sw) \<le> depth_bound t"
        using 1(2) 2(2) kb k2 Leaf by simp
      ultimately show ?thesis by blast
    qed
  next
    case (Divided b ps cap ne nw se sw)
    show ?thesis
    proof (cases "collidepoint b (x (hp r)) (y (hp r))")
      case False
      then show ?thesis using Divided by auto
    next
      case True
      have "kids_bound (ne, nw, se, sw) \<le> n" using Suc.prems Divided by simp
      from insert_children_returns[where f = "\<lambda>t. insert_fuel n hp t r", OF ih this]
      obtain ok kids2 where 2: "insert_children (\<lambda>t. insert_fuel n hp t r) (ne, nw, se, sw) = Some (ok, kids2)"
        "kids_bound kids2 \<le> kids_bound (ne, nw, se, sw)" by blast
      obtain ne' nw' se' sw' where k2: "kids2 = (ne', nw', se', sw')" by (cases kids2) auto
      have "insert_fuel (Suc n) hp t r = Some (ok, Divided b ps cap ne' nw' se' sw')"
        using True Divided 2 k2 by simp
      moreover have "depth_bound (Divided b ps cap ne' nw' se' sw') \<le> depth_bound t"
        using 2(2) k2 Divided by simp
      ultimately show ?thesis by blast
    qed
  qed
qed

lemma QuadTree_insert_returns:
  "\<exists>ok t'. QuadTree_insert hp t r = Some (ok, t')"
  using insert_fuel_returns[of t "depth_bound t" hp r] by (auto simp: QuadTree_insert_def)

lemma insert_children_mono:
  assumes fg: "\<And>t v. f t = Some v \<Longrightarrow> g t = Some v"
    and "insert_children f kids = Some v"
  shows "insert_children g kids = Some v"
proof -
  obtain ne nw se sw where kids: "kids = (ne, nw, se, sw)" by (cases kids) auto
  from assms(2) obtain ok1 ne' where 1: "f ne = Some (ok1, ne')"
    unfolding kids insert_children_def by (auto split: option.splits)
  show ?thesis
  proof (cases ok1)
    case True
    then show ?thesis using assms(2) 1 fg[OF 1] unfolding kids insert_children_def by simp
  next
    case n1: False
    from assms(2) 1 n1 obtain ok2 nw' where 2: "f nw = Some (ok2, nw')"
      unfolding kids insert_children_def by (auto split: option.splits)
    show ?thesis
    proof (cases ok2)
      case True
      then show ?thesis using assms(2) 1 n1 2 fg[OF 1] fg[OF 2] unfolding kids insert_children_def by simp
    next
      case n2: False
      from assms(2) 1 n1 2 n2 obtain ok3 se' where 3: "f se = Some (ok3, se')"
        unfolding kids insert_children_def by (auto split: option.splits)
      show ?thesis
      proof (cases ok3)
        case True
        then show ?thesis using assms(2) 1 n1 2 n2 3 fg[OF 1] fg[OF 2] fg[OF 3]
          unfolding kids insert_children_def by simp
      next
        case n3: False
        from assms(2) 1 n1 2 n2 3 n3 obtain ok4 sw' where 4: "f sw = Some (ok4, sw')"
          unfolding kids insert_children_def by (auto split: option.splits)
        show ?thesis using assms(2) 1 n1 2 n2 3 n3 4 fg[OF 1] fg[OF 2] fg[OF 3] fg[OF 4]
          unfolding kids insert_children_def by simp
      qed
    qed
  qed
qed

lemma move_existing_mono:
  assumes fg: "\<And>t r v. f t r = Some v \<Longrightarrow> g t r = Some v"
    and "move_existing f ps kids kept = Some v"
  shows "move_existing g ps kids kept = Some v"
  using assms(2)
proof (induction ps arbitrary: kids kept)
  case Nil
  then show ?case by simp
next
  case (Cons p ps)
  from Cons.prems obtain ok kids1 where 1: "insert_children (\<lambda>t. f t p) kids = Some (ok, kids1)"
    by (auto split: option.splits)
  have 2: "insert_children (\<lambda>t. g t p) kids = Some (ok, kids1)"
    by (rule insert_children_mono[where f = "\<lambda>t. f t p", OF fg 1])
  from Cons.prems 1 have "move_existing f ps kids1 (if ok then kept else kept @ [p]) = Some v"
    by simp
  from Cons.IH[OF this] show ?case using 2 by simp
qed

lemma insert_body_mono:
  assumes fg: "\<And>t r v. f t r = Some v \<Longrightarrow> g t r = Some v"
    and "insert_body f hp t r = Some v"
  shows "insert_body g hp t r = Some v"
proof (cases t)
  case (Leaf b ps cap)
  show ?thesis
  proof (cases "collidepoint b (x (hp r)) (y (hp r)) \<and> \<not> int (length ps) < cap")
    case False
    then show ?thesis using assms(2) Leaf by auto
  next
    case True
    from assms(2) True Leaf obtain kids kept where
      1: "move_existing f ps (subdivide b cap) [] = Some (kids, kept)"
      by (auto split: option.splits)
    from assms(2) True Leaf 1 obtain w where
      2: "insert_children (\<lambda>t. f t r) kids = Some w"
      by (auto split: option.splits)
    have g1: "move_existing g ps (subdivide b cap) [] = Some (kids, kept)"
      by (rule move_existing_mono[OF fg 1])
    have g2: "insert_children (\<lambda>t. g t r) kids = Some w"
      by (rule insert_children_mono[where f = "\<lambda>t. f t r", OF fg 2])
    show ?thesis using assms(2) True Leaf 1 2 g1 g2 by simp
  qed
next
  case (Divided b ps cap ne nw se sw)
  show ?thesis
  proof (cases "collidepoint b (x (hp r)) (y (hp r))")
    case False
    then show ?thesis using assms(2) Divided by auto
  next
    case True
    from assms(2) True Divided obtain w where
      2: "insert_children (\<lambda>t. f t r) (ne, nw, se, sw) = Some w"
      by (auto split: option.splits)
    have g2: "insert_children (\<lambda>t. g t r) (ne, nw, se, sw) = Some w"
      by (rule insert_children_mono[where f = "\<lambda>t. f t r", OF fg 2])
    show ?thesis using assms(2) True Divided 2 g2 by simp
  qed
qed

lemma insert_fuel_Suc:
  "insert_fuel n hp t r = Some v \<Longrightarrow> insert_fuel (Suc n) hp t r = Some v"
proof (induction n arbitrary: t r v)
  case 0
  then show ?case by simp
next
  case (Suc n)
  have "insert_body (insert_fuel n hp) hp t r = Some v" using Suc.prems by simp
  then have "insert_body (insert_fuel (Suc n) hp) hp t r = Some v"
    by (rule insert_body_mono[rotated]) (rule Suc.IH)
  then show ?case by simp
qed

lemma insert_fuel_mono:
  "insert_fuel n hp t r = Some v \<Longrightarrow> n \<le> m \<Longrightarrow> insert_fuel m hp t r = Some v"
proof (induction m)
  case 0
  then show ?case by simp
next
  case (Suc m)
  show ?case
  proof (cases "n = Suc m")
    case True
    then show ?thesis using Suc.prems by simp
  next
    case False
    then have "n \<le> m" using Suc.prems by simp
    then have "insert_fuel m hp t r = Some v" using Suc by blast
    then show ?thesis by (rule insert_fuel_Suc)
  qed
qed

text \<open>
  So every amount of fuel from \<open>depth_bound t\<close> on gives the one result
  \<open>QuadTree_insert\<close> gives.
\<close>

lemma insert_fuel_enough:
  assumes "depth_bound t \<le> n"
  shows "insert_fuel n hp t r = QuadTree_insert hp t r"
proof -
  from insert_fuel_returns[of t "depth_bound t" hp r] obtain v where
    "insert_fuel (depth_bound t) hp t r = Some v" by auto
  from insert_fuel_mono[OF this assms] this show ?thesis by (simp add: QuadTree_insert_def)
qed


subsection \<open>What insert stores, query finds\<close>

lemma insert_children_adds:
  assumes f: "\<And>t ok t'. f t = Some (ok, t') \<Longrightarrow> adds hp r t ok t'"
    and ic: "insert_children f kids = Some (ok, kids')"
  shows "adds_kids hp r kids ok kids'"
proof -
  obtain ne nw se sw where kids: "kids = (ne, nw, se, sw)" by (cases kids) auto
  from ic obtain ok1 ne' where 1: "f ne = Some (ok1, ne')"
    unfolding kids insert_children_def by (auto split: option.splits)
  note a1 = f[OF 1, unfolded adds_def]
  show ?thesis
  proof (cases ok1)
    case True
    then have "ok = True" "kids' = (ne', nw, se, sw)"
      using ic 1 unfolding kids insert_children_def by auto
    then show ?thesis using a1 True by (simp add: adds_kids_def kids)
  next
    case n1: False
    from ic 1 n1 obtain ok2 nw' where 2: "f nw = Some (ok2, nw')"
      unfolding kids insert_children_def by (auto split: option.splits)
    note a2 = f[OF 2, unfolded adds_def]
    show ?thesis
    proof (cases ok2)
      case True
      then have "ok = True" "kids' = (ne', nw', se, sw)"
        using ic 1 n1 2 unfolding kids insert_children_def by auto
      then show ?thesis using a1 a2 n1 True by (simp add: adds_kids_def kids)
    next
      case n2: False
      from ic 1 n1 2 n2 obtain ok3 se' where 3: "f se = Some (ok3, se')"
        unfolding kids insert_children_def by (auto split: option.splits)
      note a3 = f[OF 3, unfolded adds_def]
      show ?thesis
      proof (cases ok3)
        case True
        then have "ok = True" "kids' = (ne', nw', se', sw)"
          using ic 1 n1 2 n2 3 unfolding kids insert_children_def by auto
        then show ?thesis using a1 a2 a3 n1 n2 True by (simp add: adds_kids_def kids)
      next
        case n3: False
        from ic 1 n1 2 n2 3 n3 obtain ok4 sw' where 4: "f sw = Some (ok4, sw')"
          unfolding kids insert_children_def by (auto split: option.splits)
        note a4 = f[OF 4, unfolded adds_def]
        have "ok = ok4" "kids' = (ne', nw', se', sw')"
          using ic 1 n1 2 n2 3 n3 4 unfolding kids insert_children_def by auto
        then show ?thesis using a1 a2 a3 a4 n1 n2 n3 by (simp add: adds_kids_def kids)
      qed
    qed
  qed
qed

lemma move_existing_adds:
  assumes f: "\<And>t r ok t'. ins t r = Some (ok, t') \<Longrightarrow> adds hp r t ok t'"
    and me: "move_existing ins ps kids kept = Some (kids', kept')"
  shows "mset kept' + mset (stored_kids kids') = mset kept + mset ps + mset (stored_kids kids)
     \<and> (well_placed_kids hp kids \<longrightarrow> well_placed_kids hp kids')"
  using me
proof (induction ps arbitrary: kids kept)
  case Nil
  then show ?case by simp
next
  case (Cons p ps)
  from Cons.prems obtain ok kids1 where 1: "insert_children (\<lambda>t. ins t p) kids = Some (ok, kids1)"
    by (auto split: option.splits)
  have a: "adds_kids hp p kids ok kids1"
    by (rule insert_children_adds[where f = "\<lambda>t. ins t p", OF f 1])
  from Cons.prems 1 have "move_existing ins ps kids1 (if ok then kept else kept @ [p]) = Some (kids', kept')"
    by simp
  from Cons.IH[OF this] a show ?case
    by (cases ok) (auto simp: adds_kids_def)
qed

lemma subdivide_fresh:
  "stored_kids (subdivide b cap) = [] \<and> well_placed_kids hp (subdivide b cap)"
  by (simp add: subdivide_def QuadTree_init_def Let_def)

lemma insert_body_adds:
  assumes f: "\<And>t r ok t'. ins t r = Some (ok, t') \<Longrightarrow> adds hp r t ok t'"
    and ib: "insert_body ins hp t r = Some (ok, t')"
  shows "adds hp r t ok t'"
proof (cases t)
  case (Leaf b ps cap)
  show ?thesis
  proof (cases "collidepoint b (x (hp r)) (y (hp r)) \<and> \<not> int (length ps) < cap")
    case False
    then show ?thesis using ib Leaf by (auto simp: adds_def inside_def split: if_splits)
  next
    case True
    from ib True Leaf obtain kids kept where
      1: "move_existing ins ps (subdivide b cap) [] = Some (kids, kept)"
      by (auto split: option.splits)
    from ib True Leaf 1 obtain ok2 kids2 where
      2: "insert_children (\<lambda>t. ins t r) kids = Some (ok2, kids2)"
      by (auto split: option.splits)
    obtain ne nw se sw where k2: "kids2 = (ne, nw, se, sw)" by (cases kids2) auto
    have res: "ok = ok2" "t' = Divided b kept cap ne nw se sw"
      using ib True Leaf 1 2 k2 by auto
    from move_existing_adds[OF f 1] subdivide_fresh[of b cap hp]
    have m1: "mset kept + mset (stored_kids kids) = mset ps" "well_placed_kids hp kids"
      by auto
    have a2: "adds_kids hp r kids ok2 kids2"
      by (rule insert_children_adds[where f = "\<lambda>t. ins t r", OF f 2])
    have ms: "mset (stored t') = mset (stored t) + (if ok then {#r#} else {#})"
      using m1(1) a2 res k2 Leaf by (auto simp: adds_kids_def ac_simps)
    have wp: "well_placed hp t'" if w: "well_placed hp t"
    proof -
      have "\<forall>p \<in># mset (stored t). inside hp b p" using w Leaf by simp
      moreover have "inside hp b r" using True by (simp add: inside_def)
      ultimately have "\<forall>p \<in># mset (stored t'). inside hp b p"
        unfolding ms by (auto split: if_splits)
      then have "\<forall>p \<in> set (stored t'). inside hp b p" by simp
      moreover have "well_placed_kids hp kids2" using a2 m1(2) by (simp add: adds_kids_def)
      ultimately show ?thesis using res k2 by simp
    qed
    show ?thesis using ms wp by (simp add: adds_def)
  qed
next
  case (Divided b ps cap ne nw se sw)
  show ?thesis
  proof (cases "collidepoint b (x (hp r)) (y (hp r))")
    case False
    then show ?thesis using ib Divided by (auto simp: adds_def)
  next
    case True
    from ib True Divided obtain ok2 kids2 where
      2: "insert_children (\<lambda>t. ins t r) (ne, nw, se, sw) = Some (ok2, kids2)"
      by (auto split: option.splits)
    obtain ne' nw' se' sw' where k2: "kids2 = (ne', nw', se', sw')" by (cases kids2) auto
    have res: "ok = ok2" "t' = Divided b ps cap ne' nw' se' sw'"
      using ib True Divided 2 k2 by auto
    have a2: "adds_kids hp r (ne, nw, se, sw) ok2 kids2"
      by (rule insert_children_adds[where f = "\<lambda>t. ins t r", OF f 2])
    have ms: "mset (stored t') = mset (stored t) + (if ok then {#r#} else {#})"
      using a2 res k2 Divided by (auto simp: adds_kids_def ac_simps)
    have wp: "well_placed hp t'" if w: "well_placed hp t"
    proof -
      have "\<forall>p \<in># mset (stored t). inside hp b p" using w Divided by simp
      moreover have "inside hp b r" using True by (simp add: inside_def)
      ultimately have "\<forall>p \<in># mset (stored t'). inside hp b p"
        unfolding ms by (auto split: if_splits)
      then have "\<forall>p \<in> set (stored t'). inside hp b p" by simp
      moreover have "well_placed_kids hp kids2" using a2 w Divided by (simp add: adds_kids_def)
      ultimately show ?thesis using res k2 by simp
    qed
    show ?thesis using ms wp by (simp add: adds_def)
  qed
qed

text \<open>
  An \<open>insert\<close> that returns \<open>True\<close> has stored the particle once, one that returns \<open>False\<close>
  has stored nothing, and no particle the tree held is lost or duplicated.
\<close>

lemma insert_fuel_adds:
  "insert_fuel n hp t r = Some (ok, t') \<Longrightarrow> adds hp r t ok t'"
proof (induction n arbitrary: t r ok t')
  case 0
  then show ?case by simp
next
  case (Suc n)
  have "insert_body (insert_fuel n hp) hp t r = Some (ok, t')" using Suc.prems by simp
  then show ?case by (rule insert_body_adds[rotated]) (rule Suc.IH)
qed

lemma well_placed_stored:
  "well_placed hp t \<Longrightarrow> p \<in> set (stored t) \<Longrightarrow> inside hp (boundary t) p"
  by (cases t) auto

lemma collidepoint_colliderect:
  assumes "collidepoint a px py" "collidepoint b px py"
  shows "colliderect a b"
  using assms by (auto simp: collidepoint_def colliderect_def Let_def)

lemma scan_filter: "scan hp rg ps [] = filter (inside hp rg) ps"
proof (induction ps)
  case Nil
  show ?case by simp
next
  case (Cons p ps)
  show ?case using scan_append[of hp rg ps "[p]"] Cons by (simp add: inside_def)
qed

text \<open>
  \<open>query\<close> returns exactly the particles the tree holds whose point is in the rectangle, in
  the order of \<open>stored\<close>: pruning a node whose boundary misses the rectangle loses nothing.
\<close>

lemma query_filter:
  "well_placed hp t \<Longrightarrow> query hp t rg [] = filter (inside hp rg) (stored t)"
proof (induction t)
  case (Leaf b ps cap)
  show ?case
  proof (cases "colliderect b rg")
    case True
    then show ?thesis by (simp add: scan_filter)
  next
    case False
    have "\<not> inside hp rg p" if "p \<in> set ps" for p
      using Leaf.prems that False collidepoint_colliderect[of b _ _ rg] by (auto simp: inside_def)
    then have "filter (inside hp rg) ps = []" by (simp add: filter_empty_conv)
    then show ?thesis using False by simp
  qed
next
  case (Divided b ps cap ne nw se sw)
  show ?case
  proof (cases "colliderect b rg")
    case True
    have "query hp (Divided b ps cap ne nw se sw) rg []
        = query hp sw rg (query hp se rg (query hp nw rg (query hp ne rg (scan hp rg ps []))))"
      using True by (simp add: Let_def)
    also have "\<dots> = scan hp rg ps [] @ query hp ne rg [] @ query hp nw rg []
            @ query hp se rg [] @ query hp sw rg []"
      using query_append[of hp sw rg "query hp se rg (query hp nw rg (query hp ne rg (scan hp rg ps [])))"]
        query_append[of hp se rg "query hp nw rg (query hp ne rg (scan hp rg ps []))"]
        query_append[of hp nw rg "query hp ne rg (scan hp rg ps [])"]
        query_append[of hp ne rg "scan hp rg ps []"]
      by simp
    finally show ?thesis using Divided by (simp add: scan_filter)
  next
    case False
    have "\<not> inside hp rg p" if "p \<in> set (stored (Divided b ps cap ne nw se sw))" for p
    proof -
      have "inside hp b p" using Divided.prems that by auto
      then show ?thesis using False collidepoint_colliderect[of b _ _ rg] by (auto simp: inside_def)
    qed
    then have "filter (inside hp rg) (stored (Divided b ps cap ne nw se sw)) = []"
      by (simp only: filter_empty_conv) blast
    then show ?thesis using False by simp
  qed
qed

lemma insert_each_flags: "insert_each hp t rs = map_option snd (insert_flags hp t rs)"
  by (induction rs arbitrary: t) (auto split: option.splits)

lemma insert_flags_returns: "\<exists>oks t'. insert_flags hp t rs = Some (oks, t') \<and> length oks = length rs"
proof (induction rs arbitrary: t)
  case Nil
  show ?case by simp
next
  case (Cons r rs)
  from QuadTree_insert_returns[of hp t r] obtain ok t1 where 1: "QuadTree_insert hp t r = Some (ok, t1)"
    by blast
  from Cons[of t1] obtain oks t2 where 2: "insert_flags hp t1 rs = Some (oks, t2)" "length oks = length rs"
    by blast
  show ?case using 1 2 by simp
qed

lemma insert_flags_stored:
  assumes "insert_flags hp t rs = Some (oks, t')" and "well_placed hp t"
  shows "mset (stored t') = mset (stored t) + mset (accepted rs oks) \<and> well_placed hp t'"
  using assms
proof (induction rs arbitrary: t oks)
  case Nil
  then show ?case by simp
next
  case (Cons r rs)
  from Cons.prems(1) obtain ok t1 oks1 where
    1: "QuadTree_insert hp t r = Some (ok, t1)" and 2: "insert_flags hp t1 rs = Some (oks1, t')"
    and o: "oks = ok # oks1"
    by (auto split: option.splits)
  from 1 have a: "adds hp r t ok t1"
    unfolding QuadTree_insert_def by (rule insert_fuel_adds)
  then have w1: "well_placed hp t1" using Cons.prems(2) by (simp add: adds_def)
  from Cons.IH[OF 2 w1] a show ?case
    by (simp add: o adds_def)
qed

lemma accepted_set: "set (accepted rs oks) \<subseteq> set rs"
  by (induction rs oks rule: accepted.induct) auto

lemma accepted_distinct: "distinct rs \<Longrightarrow> distinct (accepted rs oks)"
proof (induction rs oks rule: accepted.induct)
  case (1 r rs ok oks)
  then show ?case using accepted_set[of rs oks] by auto
qed simp_all

lemma accepted_mem:
  "distinct rs \<Longrightarrow> length oks = length rs \<Longrightarrow> i < length rs
     \<Longrightarrow> rs ! i \<in> set (accepted rs oks) \<longleftrightarrow> oks ! i"
proof (induction rs oks arbitrary: i rule: accepted.induct)
  case (1 r rs ok oks)
  show ?case
  proof (cases i)
    case 0
    then show ?thesis using 1 accepted_set[of rs oks] by auto
  next
    case (Suc j)
    then have "rs ! j \<noteq> r" using "1.prems" by auto
    then show ?thesis using 1 Suc by auto
  qed
qed simp_all

lemma built_tree_query:
  assumes "insert_flags hp (QuadTree_init b cap) rs = Some (oks, t)"
  shows "query hp t rg [] = filter (inside hp rg) (stored t)
     \<and> mset (stored t) = mset (accepted rs oks)"
proof -
  have w: "well_placed hp (QuadTree_init b cap)" by (simp add: QuadTree_init_def)
  from insert_flags_stored[OF assms w] have "mset (stored t) = mset (accepted rs oks)" "well_placed hp t"
    by (simp_all add: QuadTree_init_def)
  then show ?thesis using query_filter by simp
qed

text \<open>
  For a tree built from an empty root by inserting distinct particles: a particle is
  returned once when its \<open>insert\<close> returned \<open>True\<close> and its point is in the query
  rectangle, and not at all otherwise.
\<close>

lemma built_tree_query_count:
  assumes b: "insert_flags hp (QuadTree_init b cap) rs = Some (oks, t)"
    and d: "distinct rs" and i: "i < length rs"
  shows "count_list (query hp t rg []) (rs ! i) = (if oks ! i \<and> inside hp rg (rs ! i) then 1 else 0)"
proof -
  from insert_flags_returns[of hp "QuadTree_init b cap" rs] b have len: "length oks = length rs"
    by auto
  from built_tree_query[OF b, of rg] have q: "query hp t rg [] = filter (inside hp rg) (stored t)"
    and m: "mset (stored t) = mset (accepted rs oks)" by auto
  have da: "distinct (accepted rs oks)" by (rule accepted_distinct[OF d])
  have ca: "count (mset (accepted rs oks)) (rs ! i) = (if oks ! i then 1 else 0)"
    using da[unfolded distinct_count_atmost_1] accepted_mem[OF d len i] by simp
  have "count_list (query hp t rg []) (rs ! i) = count (mset (query hp t rg [])) (rs ! i)"
    by (simp only: count_mset)
  also have "\<dots> = count (filter_mset (inside hp rg) (mset (stored t))) (rs ! i)"
    by (simp only: q mset_filter)
  also have "\<dots> = (if inside hp rg (rs ! i) then count (mset (accepted rs oks)) (rs ! i) else 0)"
    by (simp only: m count_filter_mset)
  also have "\<dots> = (if oks ! i \<and> inside hp rg (rs ! i) then 1 else 0)"
    by (simp only: ca) simp
  finally show ?thesis .
qed


subsection \<open>The rectangles of subdivide\<close>

lemma collidepoint_in_rect:
  "collidepoint (Rect x0 y0 w h) px py = in_rect x0 y0 w h (trunc px) (trunc py)"
  by (simp add: collidepoint_def in_rect_def Let_def)

lemma subdivide_Rect:
  "subdivide (Rect x0 y0 w h) cap
     = (Leaf (Rect (x0 + w div 2) y0 (w div 2) (h div 2)) [] cap,
        Leaf (Rect x0 y0 (w div 2) (h div 2)) [] cap,
        Leaf (Rect (x0 + w div 2) (y0 + h div 2) (w div 2) (h div 2)) [] cap,
        Leaf (Rect x0 (y0 + h div 2) (w div 2) (h div 2)) [] cap)"
  by (simp add: subdivide_def QuadTree_init_def Let_def)

lemma quadrants_cover:
  "in_rect (x0 + hw) y0 hw hh ix iy \<or> in_rect x0 y0 hw hh ix iy
     \<or> in_rect (x0 + hw) (y0 + hh) hw hh ix iy \<or> in_rect x0 (y0 + hh) hw hh ix iy
   \<longleftrightarrow> in_rect x0 y0 (2 * hw) (2 * hh) ix iy"
  unfolding in_rect_def by arith

lemma quadrants_disjoint:
  "\<not> (in_rect (x0 + hw) y0 hw hh ix iy \<and> in_rect x0 y0 hw hh ix iy)
   \<and> \<not> (in_rect (x0 + hw) y0 hw hh ix iy \<and> in_rect (x0 + hw) (y0 + hh) hw hh ix iy)
   \<and> \<not> (in_rect (x0 + hw) y0 hw hh ix iy \<and> in_rect x0 (y0 + hh) hw hh ix iy)
   \<and> \<not> (in_rect x0 y0 hw hh ix iy \<and> in_rect (x0 + hw) (y0 + hh) hw hh ix iy)
   \<and> \<not> (in_rect x0 y0 hw hh ix iy \<and> in_rect x0 (y0 + hh) hw hh ix iy)
   \<and> \<not> (in_rect (x0 + hw) (y0 + hh) hw hh ix iy \<and> in_rect x0 (y0 + hh) hw hh ix iy)"
  unfolding in_rect_def by arith

text \<open>
  The four children cover the parent's rectangle cut down to even width and height, they
  never overlap, and they cover the parent when its width and height are even.
\<close>

lemma subdivide_cover:
  assumes "subdivide (Rect x0 y0 w h) cap = (ne, nw, se, sw)"
  shows "(collidepoint (boundary ne) px py \<or> collidepoint (boundary nw) px py
        \<or> collidepoint (boundary se) px py \<or> collidepoint (boundary sw) px py)
     \<longleftrightarrow> collidepoint (Rect x0 y0 (2 * (w div 2)) (2 * (h div 2))) px py"
proof -
  have k: "boundary ne = Rect (x0 + w div 2) y0 (w div 2) (h div 2)"
    "boundary nw = Rect x0 y0 (w div 2) (h div 2)"
    "boundary se = Rect (x0 + w div 2) (y0 + h div 2) (w div 2) (h div 2)"
    "boundary sw = Rect x0 (y0 + h div 2) (w div 2) (h div 2)"
    using assms unfolding subdivide_Rect by auto
  show ?thesis
    unfolding k collidepoint_in_rect by (rule quadrants_cover)
qed

lemma subdivide_disjoint:
  assumes "subdivide (Rect x0 y0 w h) cap = (ne, nw, se, sw)"
  shows "\<not> (collidepoint (boundary ne) px py \<and> collidepoint (boundary nw) px py)
   \<and> \<not> (collidepoint (boundary ne) px py \<and> collidepoint (boundary se) px py)
   \<and> \<not> (collidepoint (boundary ne) px py \<and> collidepoint (boundary sw) px py)
   \<and> \<not> (collidepoint (boundary nw) px py \<and> collidepoint (boundary se) px py)
   \<and> \<not> (collidepoint (boundary nw) px py \<and> collidepoint (boundary sw) px py)
   \<and> \<not> (collidepoint (boundary se) px py \<and> collidepoint (boundary sw) px py)"
proof -
  have k: "boundary ne = Rect (x0 + w div 2) y0 (w div 2) (h div 2)"
    "boundary nw = Rect x0 y0 (w div 2) (h div 2)"
    "boundary se = Rect (x0 + w div 2) (y0 + h div 2) (w div 2) (h div 2)"
    "boundary sw = Rect x0 (y0 + h div 2) (w div 2) (h div 2)"
    using assms unfolding subdivide_Rect by auto
  show ?thesis
    unfolding k collidepoint_in_rect by (rule quadrants_disjoint)
qed

lemma subdivide_even:
  assumes "subdivide (Rect x0 y0 w h) cap = (ne, nw, se, sw)" and "even w" and "even h"
  shows "(collidepoint (boundary ne) px py \<or> collidepoint (boundary nw) px py
        \<or> collidepoint (boundary se) px py \<or> collidepoint (boundary sw) px py)
     \<longleftrightarrow> collidepoint (Rect x0 y0 w h) px py"
proof -
  have "2 * (w div 2) = w" "2 * (h div 2) = h" using assms(2,3) by auto
  then show ?thesis using subdivide_cover[OF assms(1), of px py] by simp
qed

text \<open>
  Claim C10. \<open>query\<close> only appends to the list it is given: the result is the list's prior
  contents, unchanged and in their order, followed by exactly what \<open>query\<close> on the empty
  list gives for the same tree and rectangle.
\<close>

theorem query_appends:
  "query hp t rg found = found @ query hp t rg []
   \<and> take (length found) (query hp t rg found) = found
   \<and> drop (length found) (query hp t rg found) = query hp t rg []"
proof -
  have "query hp t rg found = found @ query hp t rg []"
    by (rule query_append)
  then show ?thesis by simp
qed

theorem query_appends_witness:
  "query six_heap kept_tree (Rect 0 0 800 600) [7, 8]
     = [7, 8] @ query six_heap kept_tree (Rect 0 0 800 600) []
   \<and> query six_heap kept_tree (Rect 0 0 800 600) [7, 8] = [7, 8, 5, 0, 1, 2, 4, 3]"
proof -
  have e: "query six_heap kept_tree (Rect 0 0 800 600) [] = [5, 0, 1, 2, 4, 3]"
    by code_simp
  from query_appends[of six_heap kept_tree "Rect 0 0 800 600" "[7, 8]"] show ?thesis
    by (simp only: e) simp
qed

text \<open>
  Claim C4. The claim says the four children partition the parent, the southern and
  eastern ones absorbing the odd unit. The code gives all four children the floor halves:
  the node \<open>Rect 0 0 100 75\<close> of the default arena gets four children of height 37, the
  row \<open>y = 74\<close> belongs to none of them, and the point (10, 74) of the parent is in no child.
\<close>

theorem subdivide_odd_gap:
  "subdivide (Rect 0 0 100 75) 5
     = (Leaf (Rect 50 0 50 37) [] 5, Leaf (Rect 0 0 50 37) [] 5,
        Leaf (Rect 50 37 50 37) [] 5, Leaf (Rect 0 37 50 37) [] 5)
   \<and> collidepoint (Rect 0 0 100 75) 10 74
   \<and> \<not> collidepoint (Rect 50 0 50 37) 10 74
   \<and> \<not> collidepoint (Rect 0 0 50 37) 10 74
   \<and> \<not> collidepoint (Rect 50 37 50 37) 10 74
   \<and> \<not> collidepoint (Rect 0 37 50 37) 10 74"
  by (simp add: subdivide_def QuadTree_init_def collidepoint_def trunc_def)

text \<open>
  Claim C5. The claim says a particle inside a node that fails all four quadrant tests is
  kept in the node. The loop over the particles the node already held does that
  (\<open>held_tree\<close>: the particle 5 at (10, 74) stays in the list of \<open>Rect 0 0 100 75\<close>), but the
  particle being inserted is only offered to the children: inserting the particle at
  (10, 74) into the tree of the five others returns \<open>False\<close>, and the tree that results
  holds it nowhere, although the point is inside the root.
\<close>

theorem insert_drops_new_particle:
  "collidepoint (Rect 0 0 800 600) (x (six_heap 5)) (y (six_heap 5))
   \<and> QuadTree_insert six_heap five_tree 5 = Some (False, six_tree)
   \<and> stored six_tree = [0, 1, 2, 4, 3]
   \<and> QuadTree_insert six_heap held_tree 4 = Some (True, kept_tree)
   \<and> stored kept_tree = [5, 0, 1, 2, 4, 3]"
  by code_simp

text \<open>
  Claim C1. The claim says every inserted particle inside the root and the query rectangle
  is returned exactly once. \<open>set_up_quad_tree\<close> on the six particles builds \<open>six_tree\<close>,
  which lacks the particle 5 at (10, 74); the query over the whole arena returns the five
  others, and the query over the particle's own box, which \<open>check_collisions\<close> would make,
  returns nothing.
\<close>

theorem query_omits_dropped_particle:
  "set_up_quad_tree six_system six_heap = Some (six_system\<lparr>quad_tree := Some six_tree\<rparr>)
   \<and> collidepoint (Rect 0 0 800 600) (x (six_heap 5)) (y (six_heap 5))
   \<and> collidepoint (Rect 7 71 6 6) (x (six_heap 5)) (y (six_heap 5))
   \<and> query six_heap six_tree (Rect 0 0 800 600) [] = [0, 1, 2, 4, 3]
   \<and> query six_heap six_tree (Rect 7 71 6 6) [] = []"
  by code_simp

end
